theory Spec2Isabelle
  imports Main "HOL-Library.AList"
begin

section \<open>The stream client of the Python SDK (sawtooth\_sdk/client/stream.py)\<close>

text \<open>
  The module holds two classes. \<open>Stream\<close> is what callers use (\<open>send\<close>,
  \<open>send_back\<close>, \<open>receive\<close>, \<open>is_ready\<close>); \<open>_SendReceiveThread\<close> is the background
  thread that owns the socket and runs three coroutines (send, receive, monitor) on one
  event loop. The two share the collection of futures and one \<open>threading.Event\<close>.
  The embedding keeps both objects in one record and passes it explicitly. It covers
  construction, the caller's methods, the coroutines, the outer loop of \<open>run\<close> and
  the shutdown path.
\<close>

subsection \<open>Data\<close>

type_synonym bytes = string

text \<open>\<open>validator_pb2.Message\<close>: the three fields the module reads and writes.\<close>

record message =
  message_type :: int
  correlation_id :: string
  content :: bytes

text \<open>
  What lies on the receive queue: a message, or an integer event. The only event the
  module puts there is \<open>RECONNECT_EVENT = -1\<close>.
\<close>

datatype queue_item = Message message | Event int

definition RECONNECT_EVENT :: int where
  "RECONNECT_EVENT = - 1"

text \<open>The values a future is resolved with: \<open>FutureResult(message_type, content)\<close> or
  \<open>FutureError()\<close>.\<close>

datatype future_value = FutureResult int bytes | FutureError

text \<open>
  Modelled from the spec: class \<open>Future\<close> of \<open>sawtooth_sdk.client.future\<close>, which is
  imported by the module and is not among the sources. The spec calls it a
  single-assignment result cell: created pending, resolved with a result or failed, and
  terminal from then on. The model keeps the correlation id the future was created with
  and its resolution: \<open>None\<close> while it is pending.
\<close>

record future =
  future_correlation_id :: string
  future_result :: "future_value option"

datatype error = ValidatorConnectionError | FutureCollectionKeyError | AttributeError

text \<open>The ZeroMQ socket, as far as the module configures and uses it.\<close>

record socket =
  identity :: string
  linger :: "int option"
  peer :: "string option"
  sent :: "message list"
  sock_closed :: bool

datatype zmq_event = EVENT_DISCONNECTED

text \<open>The ZeroMQ context: in use, or destroyed by \<open>destroy()\<close>.\<close>

datatype context_state = Live | Destroyed

text \<open>The coroutines that can sit on the event loop as tasks.\<close>

datatype task =
    Send_message
  | Receive_message
  | Monitor_disconnects
  | Put_message message
  | Get_message

text \<open>
  Where the background thread stands in \<open>run\<close>: before its first pass, inside
  \<open>run_forever()\<close>, or after \<open>run_forever()\<close> has returned. \<open>Shut_down\<close> is the
  thread after the shutdown callback has stopped the loop and destroyed the context: the
  next pass would ask the destroyed context for a socket (line 203), which ZeroMQ
  refuses, so the thread makes no further pass.
\<close>

datatype thread_pc = At_start | In_run_forever | After_run_forever | Shut_down

text \<open>
  The state of a \<open>Stream\<close> with its thread. \<open>futures\<close> is the \<open>FutureCollection\<close>
  (correlation id to future, in insertion order), the futures themselves live in \<open>heap\<close>
  under the addresses \<open>0 ..< allocated\<close>, since a future is shared between the
  collection and the caller that \<open>send\<close> returned it to. \<open>ready_event\<close> is the
  \<open>threading.Event\<close> that \<open>Stream\<close> calls \<open>_event\<close> and the thread \<open>_ready_event\<close>.
  \<open>event_loop\<close> is \<open>None\<close> or the loop with its tasks. \<open>shutdown_pending\<close> says that
  \<open>shutdown\<close> has put \<open>_done_callback\<close> on the loop and the callback has not run yet.
\<close>

record stream =
  url :: string
  futures :: "(string \<times> nat) list"
  heap :: "nat \<Rightarrow> future"
  allocated :: nat
  ready_event :: bool
  event_loop :: "task list option"
  zmq_context :: "context_state option"
  sock :: "socket option"
  monitor_sock :: "zmq_event option"
  send_queue :: "message list option"
  recv_queue :: "queue_item list option"
  first_time :: bool
  thread :: thread_pc
  shutdown_pending :: bool

text \<open>
  How a call ends: it returns a value, raises, or waits (on the thread's condition or on
  an empty queue) in the state reached so far.
\<close>

datatype 'a outcome = Returns 'a stream | Raises error stream | Waits stream

datatype loop_control = Continue | Break

subsection \<open>Futures and their collection\<close>

text \<open>\<open>Future(correlation_id)\<close>: a new pending future at the next free address.\<close>

definition Future_new :: "string \<Rightarrow> stream \<Rightarrow> nat \<times> stream" where
  "Future_new cid st =
     (allocated st,
      st\<lparr>heap := (heap st)(allocated st :=
              \<lparr>future_correlation_id = cid, future_result = None\<rparr>),
         allocated := Suc (allocated st)\<rparr>)"

text \<open>
  Modelled from the spec: \<open>Future.set_result\<close> (not among the sources). The first call
  wins: it resolves a pending future. The spec asks that a later call be rejected or
  ignored, one of the two; the model ignores it, so the call leaves an already resolved
  future as it is and raises nothing.
\<close>

definition Future_set_result :: "nat \<Rightarrow> future_value \<Rightarrow> stream \<Rightarrow> stream" where
  "Future_set_result a r st =
     (case future_result (heap st a) of
        None \<Rightarrow> st\<lparr>heap := (heap st)(a := (heap st a)\<lparr>future_result := Some r\<rparr>)\<rparr>
      | Some v \<Rightarrow> st)"

text \<open>
  Modelled from the spec: the methods of \<open>FutureCollection\<close> the module calls (the class
  is not among the sources). \<open>put\<close> inserts a future under its own correlation id;
  \<open>set_result\<close> looks the id up and resolves the future found, and raises
  \<open>FutureCollectionKeyError\<close> when there is none (the module catches exactly that);
  \<open>remove\<close> deletes the entry; \<open>future_values\<close> gives the futures now in the collection
  and leaves it as it is.
\<close>

definition FutureCollection_put :: "nat \<Rightarrow> stream \<Rightarrow> stream" where
  "FutureCollection_put a st =
     st\<lparr>futures := AList.update (future_correlation_id (heap st a)) a (futures st)\<rparr>"

definition FutureCollection_set_result ::
    "string \<Rightarrow> future_value \<Rightarrow> stream \<Rightarrow> unit outcome" where
  "FutureCollection_set_result cid r st =
     (case map_of (futures st) cid of
        None \<Rightarrow> Raises FutureCollectionKeyError st
      | Some a \<Rightarrow> Returns () (Future_set_result a r st))"

definition FutureCollection_remove :: "string \<Rightarrow> stream \<Rightarrow> stream" where
  "FutureCollection_remove cid st = st\<lparr>futures := AList.delete cid (futures st)\<rparr>"

definition FutureCollection_future_values :: "stream \<Rightarrow> nat list" where
  "FutureCollection_future_values st = map snd (futures st)"

subsection \<open>The event loop\<close>

definition tasks :: "stream \<Rightarrow> task list" where
  "tasks st = (case event_loop st of None \<Rightarrow> [] | Some ts \<Rightarrow> ts)"

text \<open>\<open>asyncio.ensure_future\<close> and \<open>asyncio.run_coroutine_threadsafe\<close>: the coroutine
  becomes a task of the loop.\<close>

definition ensure_future :: "task \<Rightarrow> stream \<Rightarrow> stream" where
  "ensure_future t st = st\<lparr>event_loop := map_option (\<lambda>ts. ts @ [t]) (event_loop st)\<rparr>"

text \<open>A task that has returned or raised is no longer among the loop's tasks.\<close>

definition task_done :: "task \<Rightarrow> stream \<Rightarrow> stream" where
  "task_done t st = st\<lparr>event_loop := map_option (remove1 t) (event_loop st)\<rparr>"

subsection \<open>\<open>Stream.__init__\<close>\<close>

text \<open>
  The constructor makes the collection and the event, sets the event, and starts the
  thread, whose own constructor leaves loop, socket, queues and context at \<open>None\<close>.
\<close>

definition Stream_init :: "string \<Rightarrow> stream" where
  "Stream_init u =
     \<lparr>url = u,
      futures = [],
      heap = (\<lambda>_. \<lparr>future_correlation_id = [], future_result = None\<rparr>),
      allocated = 0,
      ready_event = True,
      event_loop = None,
      zmq_context = None,
      sock = None,
      monitor_sock = None,
      send_queue = None,
      recv_queue = None,
      first_time = True,
      thread = At_start,
      shutdown_pending = False\<rparr>"

definition is_ready :: "stream \<Rightarrow> bool" where
  "is_ready st = ready_event st"

subsection \<open>The caller's side\<close>

text \<open>
  \<open>_SendReceiveThread.put_message\<close>: returns at once when the event is clear; otherwise
  waits until loop and send queue exist and schedules \<open>_put_message(message)\<close> on the
  loop.
\<close>

definition put_message :: "message \<Rightarrow> stream \<Rightarrow> unit outcome" where
  "put_message m st =
     (if \<not> ready_event st then Returns () st
      else if event_loop st = None \<or> send_queue st = None then Waits st
      else Returns () (ensure_future (Put_message m) st))"

text \<open>
  \<open>Stream.send\<close>. The third argument is the value \<open>_generate_id()\<close> returns in this
  call (the SHA-512 hex digest of 1024 random letters). \<open>send_accept\<close> is the method up
  to the registration of the future (lines 250 to 257), \<open>send_finish\<close> the call of
  \<open>put_message\<close> and the return (lines 259 and 260); \<open>send\<close> is the two run one after
  the other with nothing in between. The method runs on the caller's thread, so the
  background thread can act between the two parts.
\<close>

definition send_accept :: "int \<Rightarrow> bytes \<Rightarrow> string \<Rightarrow> stream \<Rightarrow> (message \<times> nat) outcome" where
  "send_accept mt c rid st =
     (if \<not> ready_event st then Raises ValidatorConnectionError st
      else
        let m = \<lparr>message_type = mt, correlation_id = rid, content = c\<rparr>;
            (a, st1) = Future_new (correlation_id m) st
        in Returns (m, a) (FutureCollection_put a st1))"

definition send_finish :: "message \<Rightarrow> nat \<Rightarrow> stream \<Rightarrow> nat outcome" where
  "send_finish m a st =
     (case put_message m st of
        Returns _ st3 \<Rightarrow> Returns a st3
      | Raises e st3 \<Rightarrow> Raises e st3
      | Waits st3 \<Rightarrow> Waits st3)"

definition send :: "int \<Rightarrow> bytes \<Rightarrow> string \<Rightarrow> stream \<Rightarrow> nat outcome" where
  "send mt c rid st =
     (case send_accept mt c rid st of
        Returns (m, a) st2 \<Rightarrow> send_finish m a st2
      | Raises e st2 \<Rightarrow> Raises e st2
      | Waits st2 \<Rightarrow> Waits st2)"

text \<open>\<open>Stream.send_back\<close>.\<close>

definition send_back :: "int \<Rightarrow> string \<Rightarrow> bytes \<Rightarrow> stream \<Rightarrow> unit outcome" where
  "send_back mt cid c st =
     (if \<not> ready_event st then Raises ValidatorConnectionError st
      else put_message \<lparr>message_type = mt, correlation_id = cid, content = c\<rparr> st)"

text \<open>
  \<open>Stream.receive\<close>, that is \<open>_SendReceiveThread.get_message\<close>: waits until the loop
  exists and schedules \<open>_get_message()\<close> on it.
\<close>

definition receive :: "stream \<Rightarrow> unit outcome" where
  "receive st =
     (if event_loop st = None then Waits st
      else Returns () (ensure_future Get_message st))"

text \<open>\<open>Stream.wait_for_ready\<close>: waits until the event is set.\<close>

definition wait_for_ready :: "stream \<Rightarrow> unit outcome" where
  "wait_for_ready st = (if ready_event st then Returns () st else Waits st)"

subsection \<open>The coroutines of the thread\<close>

text \<open>
  A coroutine runs without interruption between two points where it yields, so each is
  given by the segment that one resumption executes.

  \<open>_receive_message\<close>, from the moment \<open>recv()\<close> delivers the parsed message \<open>m\<close>
  (lines 89 to 102) to the next \<open>recv()\<close> or the end of the loop (lines 86 to 89).
\<close>

definition receive_next :: "stream \<Rightarrow> loop_control outcome" where
  "receive_next st =
     (if \<not> ready_event st then Returns Break st
      else if sock st = None then Raises AttributeError st
      else Returns Continue st)"

definition receive_message :: "message \<Rightarrow> stream \<Rightarrow> loop_control outcome" where
  "receive_message m st =
     (case FutureCollection_set_result (correlation_id m)
             (FutureResult (message_type m) (content m)) st of
        Returns _ st1 \<Rightarrow> receive_next (FutureCollection_remove (correlation_id m) st1)
      | Raises e st1 \<Rightarrow>
          (if e \<noteq> FutureCollectionKeyError then Raises e st1
           else if \<not> ready_event st1 then Returns Break st1
           else case recv_queue st1 of
                  None \<Rightarrow> Raises AttributeError st1
                | Some q \<Rightarrow> receive_next (st1\<lparr>recv_queue := Some (q @ [Message m])\<rparr>))
      | Waits st1 \<Rightarrow> Waits st1)"

text \<open>\<open>_send_message\<close>, one turn of its loop (lines 110 to 113).\<close>

definition send_message :: "stream \<Rightarrow> loop_control outcome" where
  "send_message st =
     (if \<not> ready_event st then Returns Break st
      else case send_queue st of
             None \<Rightarrow> Raises AttributeError st
           | Some [] \<Rightarrow> Waits st
           | Some (m # q) \<Rightarrow>
               (case sock st of
                  None \<Rightarrow> Raises AttributeError (st\<lparr>send_queue := Some q\<rparr>)
                | Some s \<Rightarrow>
                    Returns Continue
                      (st\<lparr>send_queue := Some q, sock := Some (s\<lparr>sent := sent s @ [m]\<rparr>)\<rparr>)))"

text \<open>\<open>_put_message\<close> and \<open>_get_message\<close>, the coroutines behind \<open>put_message\<close> and
  \<open>get_message\<close>.\<close>

definition private_put_message :: "message \<Rightarrow> stream \<Rightarrow> unit outcome" where
  "private_put_message m st =
     (case send_queue st of
        None \<Rightarrow> Raises AttributeError st
      | Some q \<Rightarrow> Returns () (st\<lparr>send_queue := Some (q @ [m])\<rparr>))"

definition private_get_message :: "stream \<Rightarrow> queue_item outcome" where
  "private_get_message st =
     (case recv_queue st of
        None \<Rightarrow> Waits st
      | Some [] \<Rightarrow> Waits st
      | Some (x # q) \<Rightarrow> Returns x (st\<lparr>recv_queue := Some q\<rparr>))"

text \<open>
  \<open>_monitor_disconnects\<close>, from the moment the monitor socket delivers the disconnect
  event (lines 139 to 149). Cancelling every task of the loop empties its task list;
  \<open>call_soon(stop)\<close> makes \<open>run_forever()\<close> return.
\<close>

definition fail_futures :: "stream \<Rightarrow> stream" where
  "fail_futures st =
     fold (\<lambda>a. Future_set_result a FutureError) (FutureCollection_future_values st) st"

definition monitor_disconnects :: "stream \<Rightarrow> unit outcome" where
  "monitor_disconnects st =
     (let st1 = st\<lparr>ready_event := False\<rparr>;
          st2 = fail_futures st1;
          st3 = st2\<lparr>event_loop := map_option (\<lambda>_. []) (event_loop st2)\<rparr>;
          st4 = st3\<lparr>send_queue := None, recv_queue := None\<rparr>
      in case sock st4 of
           None \<Rightarrow> Raises AttributeError st4
         | Some _ \<Rightarrow>
             (if event_loop st4 = None then Raises AttributeError (st4\<lparr>sock := None\<rparr>)
              else Returns () (st4\<lparr>sock := None, thread := After_run_forever\<rparr>)))"

subsection \<open>Shutdown\<close>

text \<open>
  \<open>Stream.close\<close> calls \<open>shutdown\<close>, which gathers the tasks of the loop and asks for
  \<open>_done_callback\<close> to run when all of them are done (lines 183 and 184). Before the
  thread has made its loop there is nothing to gather and no loop the callback could run
  on, and the call leaves the client as it is.
\<close>

definition shutdown :: "stream \<Rightarrow> unit outcome" where
  "shutdown st =
     (if event_loop st = None then Returns () st
      else Returns () (st\<lparr>shutdown_pending := True\<rparr>))"

definition Stream_close :: "stream \<Rightarrow> unit outcome" where
  "Stream_close st = shutdown st"

text \<open>
  \<open>_done_callback\<close> (lines 191 to 193): it stops the loop, so that \<open>run_forever()\<close>
  returns, closes the socket and destroys the context. It does not touch the readiness
  event, the queues or the futures.
\<close>

definition done_callback :: "stream \<Rightarrow> unit outcome" where
  "done_callback st =
     (if event_loop st = None then Raises AttributeError st
      else
        let st1 = st\<lparr>thread := After_run_forever\<rparr>
        in case sock st1 of
             None \<Rightarrow> Raises AttributeError st1
           | Some s \<Rightarrow>
               (let st2 = st1\<lparr>sock := Some (s\<lparr>sock_closed := True\<rparr>)\<rparr>
                in case zmq_context st2 of
                     None \<Rightarrow> Raises AttributeError st2
                   | Some c \<Rightarrow>
                       Returns () (st2\<lparr>zmq_context := Some Destroyed, thread := Shut_down\<rparr>)))"

subsection \<open>\<open>_SendReceiveThread.run\<close>\<close>

text \<open>
  One pass of the outer loop, in the order of the source: loop, context, socket with
  its identity, linger and peer, monitor socket, the two queues and the reconnect event
  (lines 198 to 214); the three coroutines (lines 215 to 220); the event (line 222);
  \<open>run_forever()\<close> (line 223). The argument is the value \<open>_generate_id()\<close> returns in
  this pass. These are the passes in which the context gives a socket on line 203; once
  the context has been destroyed the thread makes none (\<open>Shut_down\<close>).
\<close>

definition run_setup :: "string \<Rightarrow> stream \<Rightarrow> stream" where
  "run_setup rid st =
     (let st1 = (if event_loop st = None then st\<lparr>event_loop := Some []\<rparr> else st);
          st2 = (if zmq_context st1 = None then st1\<lparr>zmq_context := Some Live\<rparr> else st1);
          st3 = st2\<lparr>sock := Some \<lparr>identity = take 16 rid, linger = Some 0,
                                   peer = Some (''tcp://'' @ url st2), sent = [],
                                   sock_closed = False\<rparr>\<rparr>;
          st4 = st3\<lparr>monitor_sock := Some EVENT_DISCONNECTED\<rparr>;
          st5 = st4\<lparr>send_queue := Some [], recv_queue := Some []\<rparr>
      in if first_time st5 = False
         then st5\<lparr>recv_queue := Some [Event RECONNECT_EVENT]\<rparr>
         else st5)"

definition run_loops :: "stream \<Rightarrow> stream" where
  "run_loops st =
     ensure_future Monitor_disconnects
       (ensure_future Receive_message (ensure_future Send_message st))"

definition run_ready :: "stream \<Rightarrow> stream" where
  "run_ready st = st\<lparr>ready_event := True\<rparr>"

definition run_pass :: "string \<Rightarrow> stream \<Rightarrow> stream" where
  "run_pass rid st = (run_ready (run_loops (run_setup rid st)))\<lparr>thread := In_run_forever\<rparr>"

text \<open>After \<open>run_forever()\<close> has returned (lines 224 and 225).\<close>

definition run_forever_returned :: "stream \<Rightarrow> stream" where
  "run_forever_returned st = (if first_time st then st\<lparr>first_time := False\<rparr> else st)"

subsection \<open>The client as a transition system\<close>

text \<open>
  What can happen to a client: the thread makes a pass of \<open>run\<close>, a coroutine is
  resumed (by a disconnect event, an inbound message, or because its turn has come), or
  a caller calls a method. A coroutine runs only while the thread is inside
  \<open>run_forever()\<close> and the coroutine is a task of the loop. An action that cannot
  happen, or a call that would wait, gives \<open>None\<close>.

  \<open>Fail t\<close> is a task ending with an exception that nothing in the module catches, as
  the receive loop does when \<open>ParseFromString\<close> (line 91, outside the \<open>try\<close>) is given
  bytes that are no message, or any task does when a call into ZeroMQ raises: the task
  is gone and nothing else changes. \<open>Close\<close> is a caller's \<open>close()\<close>.
  \<open>Done_callback\<close> is the shutdown callback taking its turn on the loop. It runs when
  every task that was gathered by \<open>shutdown\<close> is done; this needs an identity of tasks
  that the record does not keep, so the action is allowed at any turn of the running
  loop after \<open>close()\<close>, which includes every moment at which the callback can run.
\<close>

datatype action =
    Run string
  | Disconnect
  | Inbound message
  | Outbound
  | Put message
  | Deliver
  | Send_accept int bytes string
  | Send int bytes string
  | Send_back int string bytes
  | Put_call message
  | Receive
  | Fail task
  | Close
  | Done_callback

definition running :: "task \<Rightarrow> stream \<Rightarrow> bool" where
  "running t st = (thread st = In_run_forever \<and> t \<in> set (tasks st))"

fun loop_step :: "task \<Rightarrow> loop_control outcome \<Rightarrow> stream option" where
  "loop_step t (Returns Continue st) = Some st"
| "loop_step t (Returns Break st) = Some (task_done t st)"
| "loop_step t (Raises e st) = Some (task_done t st)"
| "loop_step t (Waits st) = None"

fun once_step :: "task \<Rightarrow> 'a outcome \<Rightarrow> stream option" where
  "once_step t (Returns x st) = Some (task_done t st)"
| "once_step t (Raises e st) = Some (task_done t st)"
| "once_step t (Waits st) = None"

fun call_step :: "'a outcome \<Rightarrow> stream option" where
  "call_step (Returns x st) = Some st"
| "call_step (Raises e st) = Some st"
| "call_step (Waits st) = None"

fun step :: "action \<Rightarrow> stream \<Rightarrow> stream option" where
  "step (Run rid) st =
     (case thread st of
        At_start \<Rightarrow> Some (run_pass rid st)
      | After_run_forever \<Rightarrow> Some (run_pass rid (run_forever_returned st))
      | In_run_forever \<Rightarrow> None
      | Shut_down \<Rightarrow> None)"
| "step Disconnect st =
     (if running Monitor_disconnects st
      then once_step Monitor_disconnects (monitor_disconnects st) else None)"
| "step (Inbound m) st =
     (if running Receive_message st
      then loop_step Receive_message (receive_message m st) else None)"
| "step Outbound st =
     (if running Send_message st then loop_step Send_message (send_message st) else None)"
| "step (Put m) st =
     (if running (Put_message m) st
      then once_step (Put_message m) (private_put_message m st) else None)"
| "step Deliver st =
     (if running Get_message st
      then once_step Get_message (private_get_message st) else None)"
| "step (Send_accept mt c rid) st = call_step (send_accept mt c rid st)"
| "step (Send mt c rid) st = call_step (send mt c rid st)"
| "step (Send_back mt cid c) st = call_step (send_back mt cid c st)"
| "step (Put_call m) st = call_step (put_message m st)"
| "step Receive st = call_step (receive st)"
| "step (Fail t) st = (if running t st then Some (task_done t st) else None)"
| "step Close st = call_step (Stream_close st)"
| "step Done_callback st =
     (if shutdown_pending st \<and> thread st = In_run_forever
      then call_step (done_callback (st\<lparr>shutdown_pending := False\<rparr>)) else None)"

fun exec :: "action list \<Rightarrow> stream \<Rightarrow> stream option" where
  "exec [] st = Some st"
| "exec (a # as) st = (case step a st of None \<Rightarrow> None | Some st' \<Rightarrow> exec as st')"

text \<open>The states a client constructed for address \<open>u\<close> can be in.\<close>

inductive reachable :: "string \<Rightarrow> stream \<Rightarrow> bool" for u :: string where
  init: "reachable u (Stream_init u)"
| step: "reachable u st \<Longrightarrow> step a st = Some st' \<Longrightarrow> reachable u st'"

subsection \<open>Conditions on states\<close>

text \<open>The socket exists, was connected to the client's address and has not been closed.\<close>

definition connected :: "stream \<Rightarrow> bool" where
  "connected st =
     (case sock st of
        None \<Rightarrow> False
      | Some s \<Rightarrow> peer s = Some (''tcp://'' @ url st) \<and> \<not> sock_closed s)"

text \<open>The three loops are tasks of the event loop and the thread is running it.\<close>

definition loops_running :: "stream \<Rightarrow> bool" where
  "loops_running st =
     (thread st = In_run_forever \<and> Send_message \<in> set (tasks st) \<and>
      Receive_message \<in> set (tasks st) \<and> Monitor_disconnects \<in> set (tasks st))"

definition loops_absent :: "stream \<Rightarrow> bool" where
  "loops_absent st =
     (Send_message \<notin> set (tasks st) \<and> Receive_message \<notin> set (tasks st) \<and>
      Monitor_disconnects \<notin> set (tasks st))"

text \<open>What holds at each of the places the thread can be.\<close>

definition thread_inv :: "stream \<Rightarrow> bool" where
  "thread_inv st =
     (case thread st of
        At_start \<Rightarrow>
          ready_event st \<and> first_time st \<and> event_loop st = None \<and> sock st = None \<and>
          zmq_context st = None \<and> send_queue st = None \<and> recv_queue st = None \<and>
          \<not> shutdown_pending st
      | In_run_forever \<Rightarrow>
          ready_event st \<and> connected st \<and> event_loop st \<noteq> None \<and>
          zmq_context st = Some Live \<and> send_queue st \<noteq> None \<and> recv_queue st \<noteq> None
      | After_run_forever \<Rightarrow>
          \<not> ready_event st \<and> sock st = None \<and> loops_absent st \<and>
          event_loop st \<noteq> None \<and> zmq_context st = Some Live \<and>
          send_queue st = None \<and> recv_queue st = None
      | Shut_down \<Rightarrow>
          ready_event st \<and> \<not> connected st)"

subsection \<open>Reading outcomes and the receive queue\<close>

text \<open>The state in which a call has ended, however it ended.\<close>

fun outcome_state :: "'a outcome \<Rightarrow> stream" where
  "outcome_state (Returns x st) = st"
| "outcome_state (Raises e st) = st"
| "outcome_state (Waits st) = st"

text \<open>
  \<open>n\<close> runs of \<open>_get_message\<close> one after the other, each to its end: the items they
  return, in order, and the state after the last.
\<close>

fun deliveries :: "nat \<Rightarrow> stream \<Rightarrow> (queue_item list \<times> stream) option" where
  "deliveries 0 st = Some ([], st)"
| "deliveries (Suc n) st =
     (case private_get_message st of
        Returns x st1 \<Rightarrow>
          (case deliveries n st1 of
             None \<Rightarrow> None
           | Some (xs, st2) \<Rightarrow> Some (x # xs, st2))
      | Raises e st1 \<Rightarrow> None
      | Waits st1 \<Rightarrow> None)"

text \<open>
  The collection of futures is well formed: no correlation id and no future occurs in it
  twice, and every future in it has been allocated and is pending or failed (a future
  that received a result has left the collection).
\<close>

definition registry_inv :: "stream \<Rightarrow> bool" where
  "registry_inv st =
     (distinct (map fst (futures st)) \<and> distinct (map snd (futures st)) \<and>
      (\<forall>a \<in> set (map snd (futures st)).
         a < allocated st \<and>
         (future_result (heap st a) = None \<or> future_result (heap st a) = Some FutureError)))"

subsection \<open>Unfolding and evaluation\<close>

lemmas caller_defs = send_def send_accept_def send_finish_def send_back_def put_message_def
  receive_def
  Future_new_def FutureCollection_put_def ensure_future_def is_ready_def

lemmas coroutine_defs = receive_message_def receive_next_def send_message_def
  private_put_message_def private_get_message_def monitor_disconnects_def
  fail_futures_def FutureCollection_future_values_def Future_set_result_def
  FutureCollection_set_result_def FutureCollection_remove_def task_done_def

lemmas run_defs = run_pass_def run_setup_def run_loops_def run_ready_def
  run_forever_returned_def

lemmas shutdown_defs = shutdown_def Stream_close_def done_callback_def

lemmas eval_defs = caller_defs coroutine_defs run_defs shutdown_defs Stream_init_def
  running_def tasks_def RECONNECT_EVENT_def

lemma put_message_not_ready: "\<not> ready_event st \<Longrightarrow> put_message m st = Returns () st"
  by (simp add: put_message_def)

section \<open>Sending while the client is not ready\<close>

text \<open>
  Claim C2. A call of \<open>send\<close> or \<open>send_back\<close> made while the readiness flag is false
  raises \<open>ValidatorConnectionError\<close> at once, and the client's state at the raise is the
  state at the call: no message has been built or queued, nothing was written to the
  socket, no task was scheduled, and \<open>send\<close> has registered no future.
\<close>

theorem send_not_ready:
  "\<not> is_ready st \<Longrightarrow>
     send mt c rid st = Raises ValidatorConnectionError st \<and>
     send_back mt cid c st = Raises ValidatorConnectionError st"
  by (simp add: send_def send_accept_def send_back_def is_ready_def)

text \<open>The theorem at the state a client is in after its first connection was lost.\<close>

theorem send_not_ready_witness:
  "case exec [Run ''0123456789abcdef0123'', Disconnect] (Stream_init ''localhost:4004'') of
     None \<Rightarrow> False
   | Some st \<Rightarrow>
       \<not> is_ready st \<and>
       send 7 ''ping'' ''c1'' st = Raises ValidatorConnectionError st \<and>
       send_back 7 ''c0'' ''ping'' st = Raises ValidatorConnectionError st"
proof -
  obtain st where e:
      "exec [Run ''0123456789abcdef0123'', Disconnect] (Stream_init ''localhost:4004'') = Some st"
    and r: "\<not> is_ready st"
    by (simp add: eval_defs)
  from send_not_ready [OF r, of 7 "''ping''" "''c1''" "''c0''"] e r
  show ?thesis by simp
qed

section \<open>Messages handed over while the client is not ready\<close>

lemma fold_set_result_heap:
  "\<exists>h. fold (\<lambda>a. Future_set_result a r) as st = st\<lparr>heap := h\<rparr>"
proof (induction as arbitrary: st)
  case Nil
  have "st = st\<lparr>heap := heap st\<rparr>" by simp
  then show ?case by (metis fold_simps(1))
next
  case (Cons a as)
  obtain h where "fold (\<lambda>a. Future_set_result a r) as (Future_set_result a r st)
      = (Future_set_result a r st)\<lparr>heap := h\<rparr>"
    using Cons.IH by blast
  moreover have "(Future_set_result a r st)\<lparr>heap := h\<rparr> = st\<lparr>heap := h\<rparr>"
    by (simp add: Future_set_result_def split: option.splits)
  ultimately have "fold (\<lambda>a. Future_set_result a r) (a # as) st = st\<lparr>heap := h\<rparr>"
    by simp
  then show ?case by blast
qed

lemma fail_futures_heap: "\<exists>h. fail_futures st = st\<lparr>heap := h\<rparr>"
  unfolding fail_futures_def by (rule fold_set_result_heap)

text \<open>What the disconnect handler leaves behind when it runs to its end.\<close>

lemma monitor_disconnects_returns:
  assumes "monitor_disconnects st = Returns x st'"
  shows "\<not> ready_event st' \<and> send_queue st' = None \<and> recv_queue st' = None \<and>
         sock st' = None \<and> tasks st' = [] \<and> thread st' = After_run_forever \<and>
         event_loop st' = Some [] \<and> futures st' = futures st \<and>
         allocated st' = allocated st \<and> first_time st' = first_time st \<and> url st' = url st \<and>
         zmq_context st' = zmq_context st \<and> shutdown_pending st' = shutdown_pending st"
proof -
  obtain h where h:
      "fail_futures (st\<lparr>ready_event := False\<rparr>) = st\<lparr>ready_event := False, heap := h\<rparr>"
    using fail_futures_heap [of "st\<lparr>ready_event := False\<rparr>"] by auto
  show ?thesis using assms
    by (auto simp: monitor_disconnects_def h tasks_def Let_def split: option.splits if_splits)
qed

text \<open>
  Claim C10. Called while the readiness flag is false, \<open>put_message\<close> returns at once:
  it raises nothing and leaves the state as it was, so the message is neither on the
  send queue nor scheduled. In particular, when \<open>send\<close> has passed its check and
  registered its future in state \<open>st1\<close>, and the disconnect handler runs before \<open>send\<close>
  reaches \<open>put_message\<close>, the call returns normally and the message is gone: there is
  no send queue and no task that would fill one.
\<close>

theorem put_message_discards:
  "(\<not> is_ready st \<longrightarrow> put_message m st = Returns () st) \<and>
   (send_accept mt c rid st1 = Returns (m', a) st2 \<and> monitor_disconnects st2 = Returns () st3 \<longrightarrow>
      put_message m' st3 = Returns () st3 \<and> send_queue st3 = None \<and> tasks st3 = [])"
  using monitor_disconnects_returns [of st2 "()" st3]
  by (auto simp: put_message_def is_ready_def)

text \<open>The theorem for a \<open>send\<close> overtaken by the loss of the first connection.\<close>

theorem put_message_discards_witness:
  "case exec [Run ''0123456789abcdef0123''] (Stream_init ''localhost:4004'') of
     None \<Rightarrow> False
   | Some st \<Rightarrow>
      (case send_accept 7 ''ping'' ''c1'' st of
         Returns (m', a) st2 \<Rightarrow>
           (case monitor_disconnects st2 of
              Returns x st3 \<Rightarrow>
                \<not> is_ready st3 \<and> put_message m' st3 = Returns () st3 \<and>
                send_queue st3 = None \<and> tasks st3 = []
            | Raises e st3 \<Rightarrow> False
            | Waits st3 \<Rightarrow> False)
       | Raises e st2 \<Rightarrow> False
       | Waits st2 \<Rightarrow> False)"
proof -
  obtain st where e:
      "exec [Run ''0123456789abcdef0123''] (Stream_init ''localhost:4004'') = Some st"
    and r: "is_ready st"
    by (simp add: eval_defs)
  obtain m' a st2 where s: "send_accept 7 ''ping'' ''c1'' st = Returns (m', a) st2"
    using r by (simp add: send_accept_def Future_new_def is_ready_def)
  obtain st3 where d: "monitor_disconnects st2 = Returns () st3"
    using e s by (auto simp add: eval_defs Let_def split: option.splits)
  have n: "\<not> is_ready st3"
    using monitor_disconnects_returns [OF d] by (simp add: is_ready_def)
  from put_message_discards [of st3 m' 7 "''ping''" "''c1''" st m' a st2 st3] e s d n
  show ?thesis by simp
qed

section \<open>What holds wherever the thread stands\<close>

text \<open>
  Before its first pass the thread has made nothing and the event is set, as the
  constructor left it; inside \<open>run_forever()\<close> the event is set, the socket is
  connected and both queues exist; after \<open>run_forever()\<close> has returned because of a
  disconnect the event is clear and socket, queues and loops are gone; after the
  shutdown callback the event is still set and the socket is closed. Every action
  keeps this.
\<close>

lemmas inv_defs = thread_inv_def connected_def loops_running_def loops_absent_def tasks_def

lemma thread_inv_init: "thread_inv (Stream_init u)"
  by (simp add: thread_inv_def Stream_init_def)

lemma thread_inv_Run: "thread_inv st \<Longrightarrow> step (Run rid) st = Some st' \<Longrightarrow> thread_inv st'"
  by (auto simp: inv_defs run_defs ensure_future_def Let_def split: thread_pc.splits option.splits if_splits)

lemma thread_inv_Disconnect:
  assumes "thread_inv st" "step Disconnect st = Some st'" shows "thread_inv st'"
proof -
  from assms have r1: "thread st = In_run_forever" "Monitor_disconnects \<in> set (tasks st)"
    by (simp_all add: running_def split: if_splits)
  then have r3: "event_loop st \<noteq> None" by (cases "event_loop st") (auto simp: tasks_def)
  from assms r1 have r2: "sock st \<noteq> None" and r4: "zmq_context st = Some Live"
    by (auto simp: thread_inv_def connected_def split: option.splits)
  note r = r1(1) r2 r3
  obtain h where h:
      "fail_futures (st\<lparr>ready_event := False\<rparr>) = st\<lparr>ready_event := False, heap := h\<rparr>"
    using fail_futures_heap [of "st\<lparr>ready_event := False\<rparr>"] by auto
  from r obtain st1 where m: "monitor_disconnects st = Returns () st1"
    by (auto simp: monitor_disconnects_def h Let_def)
  with assms have "st' = task_done Monitor_disconnects st1"
    by (simp split: if_splits)
  with monitor_disconnects_returns [OF m] r4 show ?thesis
    by (simp add: thread_inv_def loops_absent_def tasks_def task_done_def split: option.splits)
qed

lemma thread_inv_Inbound: "thread_inv st \<Longrightarrow> step (Inbound m) st = Some st' \<Longrightarrow> thread_inv st'"
  by (auto simp: running_def inv_defs receive_message_def receive_next_def
        FutureCollection_set_result_def FutureCollection_remove_def Future_set_result_def
      split: if_splits option.splits)

lemma thread_inv_Outbound: "thread_inv st \<Longrightarrow> step Outbound st = Some st' \<Longrightarrow> thread_inv st'"
  by (auto simp: running_def inv_defs send_message_def
      split: if_splits option.splits list.splits)

lemma thread_inv_Put: "thread_inv st \<Longrightarrow> step (Put m) st = Some st' \<Longrightarrow> thread_inv st'"
  by (auto simp: running_def inv_defs private_put_message_def task_done_def
      split: if_splits option.splits)

lemma thread_inv_Deliver: "thread_inv st \<Longrightarrow> step Deliver st = Some st' \<Longrightarrow> thread_inv st'"
  by (auto simp: running_def inv_defs private_get_message_def task_done_def
      split: if_splits option.splits list.splits)

lemma thread_inv_Send_accept:
  "thread_inv st \<Longrightarrow> step (Send_accept mt c rid) st = Some st' \<Longrightarrow> thread_inv st'"
  by (auto simp: inv_defs send_accept_def Future_new_def FutureCollection_put_def Let_def
      split: if_splits thread_pc.splits option.splits)

lemma thread_inv_Put_call:
  "thread_inv st \<Longrightarrow> step (Put_call m) st = Some st' \<Longrightarrow> thread_inv st'"
  by (auto simp: inv_defs put_message_def ensure_future_def
      split: if_splits thread_pc.splits option.splits)

lemma thread_inv_Send_back:
  "thread_inv st \<Longrightarrow> step (Send_back mt cid c) st = Some st' \<Longrightarrow> thread_inv st'"
  by (auto simp: inv_defs send_back_def put_message_def ensure_future_def
      split: if_splits thread_pc.splits option.splits)

lemma thread_inv_Send:
  "thread_inv st \<Longrightarrow> step (Send mt c rid) st = Some st' \<Longrightarrow> thread_inv st'"
  by (auto simp: inv_defs caller_defs Let_def
      split: if_splits thread_pc.splits option.splits)

lemma thread_inv_Receive:
  "thread_inv st \<Longrightarrow> step Receive st = Some st' \<Longrightarrow> thread_inv st'"
  by (auto simp: inv_defs receive_def ensure_future_def
      split: if_splits thread_pc.splits option.splits)

lemma thread_inv_Fail:
  "thread_inv st \<Longrightarrow> step (Fail t) st = Some st' \<Longrightarrow> thread_inv st'"
  by (auto simp: running_def inv_defs task_done_def
      split: if_splits option.splits)

lemma thread_inv_Close:
  "thread_inv st \<Longrightarrow> step Close st = Some st' \<Longrightarrow> thread_inv st'"
  by (auto simp: inv_defs shutdown_defs
      split: if_splits thread_pc.splits option.splits)

lemma thread_inv_Done_callback:
  "thread_inv st \<Longrightarrow> step Done_callback st = Some st' \<Longrightarrow> thread_inv st'"
  by (auto simp: inv_defs shutdown_defs Let_def
      split: if_splits option.splits)

lemma thread_inv_step: "thread_inv st \<Longrightarrow> step a st = Some st' \<Longrightarrow> thread_inv st'"
  by (cases a)
    (blast intro: thread_inv_Run thread_inv_Disconnect thread_inv_Inbound thread_inv_Outbound
       thread_inv_Put thread_inv_Deliver thread_inv_Send_accept thread_inv_Send
       thread_inv_Send_back thread_inv_Put_call thread_inv_Receive thread_inv_Fail
       thread_inv_Close thread_inv_Done_callback)+

lemma reachable_thread_inv: "reachable u st \<Longrightarrow> thread_inv st"
  by (induction rule: reachable.induct) (auto intro: thread_inv_init thread_inv_step)

section \<open>A pass of the thread's outer loop\<close>


section \<open>Sending while the client is ready\<close>

lemma exec_reachable: "reachable u st \<Longrightarrow> exec as st = Some st' \<Longrightarrow> reachable u st'"
proof (induction as arbitrary: st)
  case Nil then show ?case by simp
next
  case (Cons a as)
  then show ?case by (auto split: option.splits intro: reachable.step)
qed

text \<open>A disconnect can be handled whenever the monitor is running.\<close>

lemma disconnect_enabled:
  assumes "thread_inv st" and "running Monitor_disconnects st"
  shows "\<exists>st1. step Disconnect st = Some st1 \<and> thread st1 = After_run_forever"
proof -
  from assms(2) have r1: "thread st = In_run_forever" "Monitor_disconnects \<in> set (tasks st)"
    by (simp_all add: running_def)
  then have r3: "event_loop st \<noteq> None" by (cases "event_loop st") (auto simp: tasks_def)
  from assms(1) r1 have r2: "sock st \<noteq> None"
    by (auto simp: thread_inv_def connected_def split: option.splits)
  obtain h where h:
      "fail_futures (st\<lparr>ready_event := False\<rparr>) = st\<lparr>ready_event := False, heap := h\<rparr>"
    using fail_futures_heap [of "st\<lparr>ready_event := False\<rparr>"] by auto
  from r2 r3 assms(2) show ?thesis
    by (auto simp: monitor_disconnects_def h task_done_def Let_def)
qed

text \<open>
  Claim C8 says that every call of \<open>send\<close> made while the readiness flag is true hands
  its message to the outbound path. \<open>send\<close> tests the flag on line 250 and
  \<open>put_message\<close> tests it again on line 155, on the caller's thread; when the
  disconnect handler clears the flag between the two tests, \<open>put_message\<close> returns on
  line 156 and \<open>send\<close> returns its future with the message neither queued nor scheduled.
  Here the call is made on a connected, ready client; the connection is lost after the
  future is registered; and the send queue of the next connection is empty.
\<close>

theorem send_overtaken_by_disconnect:
  "case exec [Run ''0123456789abcdef0123''] (Stream_init ''localhost:4004'') of
     None \<Rightarrow> False
   | Some st \<Rightarrow>
       is_ready st \<and>
       (case send_accept 7 ''ping'' ''c1'' st of
          Returns (m, a) st2 \<Rightarrow>
            (case exec [Disconnect] st2 of
               None \<Rightarrow> False
             | Some st3 \<Rightarrow>
                 send_finish m a st3 = Returns a st3 \<and>
                 send_queue st3 = None \<and> tasks st3 = [] \<and>
                 (case exec [Run ''fedcba9876543210fedc''] st3 of
                    None \<Rightarrow> False
                  | Some st4 \<Rightarrow>
                      send_queue st4 = Some [] \<and>
                      tasks st4 = [Send_message, Receive_message, Monitor_disconnects]))
        | Raises e st2 \<Rightarrow> False
        | Waits st2 \<Rightarrow> False)"
  by (simp add: eval_defs)

text \<open>
  Claim C8, amended. A call \<open>send(message_type, content)\<close> made while the readiness
  flag is true takes a newly generated identifier \<open>rid\<close>, builds the message with
  exactly that type, identifier and content, creates a pending future with that
  identifier at a new address and registers it in the collection under that identifier.
  It then calls \<open>put_message\<close> in whatever state \<open>st3\<close> the client has reached by then
  and returns the future, never waiting for a response: if the flag is still true in
  \<open>st3\<close>, \<open>_put_message\<close> is scheduled for the message on the event loop (after a wait
  for loop and send queue, if the thread has not made them yet), and the scheduled task
  appends the message to the send queue; if a disconnect has cleared the flag, nothing is
  handed over and the future is returned all the same. With nothing happening in
  between, \<open>st3\<close> is the state \<open>st2\<close> in which the future was registered.
\<close>

theorem send_ready:
  assumes "is_ready st"
    and "m = \<lparr>message_type = mt, correlation_id = rid, content = c\<rparr>"
    and "st2 = st\<lparr>heap := (heap st)(allocated st :=
                        \<lparr>future_correlation_id = rid, future_result = None\<rparr>),
                    allocated := Suc (allocated st),
                    futures := AList.update rid (allocated st) (futures st)\<rparr>"
  shows "send_accept mt c rid st = Returns (m, allocated st) st2 \<and>
         map_of (futures st2) rid = Some (allocated st) \<and>
         heap st2 (allocated st) = \<lparr>future_correlation_id = rid, future_result = None\<rparr> \<and>
         send_finish m (allocated st) st3 =
           (if \<not> is_ready st3 then Returns (allocated st) st3
            else if event_loop st3 = None \<or> send_queue st3 = None then Waits st3
            else Returns (allocated st) (ensure_future (Put_message m) st3)) \<and>
         send mt c rid st = send_finish m (allocated st) st2 \<and>
         private_put_message m st4 =
           (case send_queue st4 of
              None \<Rightarrow> Raises AttributeError st4
            | Some q \<Rightarrow> Returns () (st4\<lparr>send_queue := Some (q @ [m])\<rparr>)) \<and>
         put_message m (run_pass rid' st2) =
           Returns () (ensure_future (Put_message m) (run_pass rid' st2))"
proof -
  have a: "send_accept mt c rid st = Returns (m, allocated st) st2"
    using assms
    by (simp add: send_accept_def Future_new_def FutureCollection_put_def is_ready_def)
  have b: "map_of (futures st2) rid = Some (allocated st)"
    using assms(3) by (simp add: AList.update_conv')
  have c: "heap st2 (allocated st) = \<lparr>future_correlation_id = rid, future_result = None\<rparr>"
    using assms(3) by simp
  have d: "send_finish m (allocated st) st3 =
           (if \<not> is_ready st3 then Returns (allocated st) st3
            else if event_loop st3 = None \<or> send_queue st3 = None then Waits st3
            else Returns (allocated st) (ensure_future (Put_message m) st3))"
    by (simp add: send_finish_def put_message_def is_ready_def)
  have e: "send mt c rid st = send_finish m (allocated st) st2"
    using a by (simp add: send_def)
  have f: "private_put_message m st4 =
           (case send_queue st4 of
              None \<Rightarrow> Raises AttributeError st4
            | Some q \<Rightarrow> Returns () (st4\<lparr>send_queue := Some (q @ [m])\<rparr>))"
    by (simp add: private_put_message_def)
  have g: "put_message m (run_pass rid' st2) =
           Returns () (ensure_future (Put_message m) (run_pass rid' st2))"
    by (simp add: put_message_def run_defs ensure_future_def Let_def split: option.splits)
  from a b c d e f g show ?thesis by blast
qed

text \<open>The theorem for the first \<open>send\<close> on a connected client, with nothing in between.\<close>

theorem send_ready_witness:
  "case exec [Run ''0123456789abcdef0123''] (Stream_init ''localhost:4004'') of
     None \<Rightarrow> False
   | Some st \<Rightarrow>
       is_ready st \<and>
       send 7 ''ping'' ''c1'' st =
         Returns 0
           (st\<lparr>heap := (heap st)(0 := \<lparr>future_correlation_id = ''c1'', future_result = None\<rparr>),
               allocated := 1,
               futures := [(''c1'', 0)],
               event_loop := Some [Send_message, Receive_message, Monitor_disconnects,
                 Put_message \<lparr>message_type = 7, correlation_id = ''c1'', content = ''ping''\<rparr>]\<rparr>)"
proof -
  obtain st where e:
      "exec [Run ''0123456789abcdef0123''] (Stream_init ''localhost:4004'') = Some st"
    and r: "is_ready st"
    and f: "allocated st = 0" "futures st = []" "send_queue st = Some []"
      "event_loop st = Some [Send_message, Receive_message, Monitor_disconnects]"
    by (simp add: eval_defs)
  let ?st2 = "st\<lparr>heap := (heap st)(allocated st :=
                        \<lparr>future_correlation_id = ''c1'', future_result = None\<rparr>),
                    allocated := Suc (allocated st),
                    futures := AList.update ''c1'' (allocated st) (futures st)\<rparr>"
  from send_ready [where mt = 7 and rid = "''c1''" and c = "''ping''" and ?st3.0 = ?st2,
      OF r refl refl] e r f
  show ?thesis by (simp add: ensure_future_def is_ready_def)
qed

section \<open>The readiness flag\<close>

text \<open>
  As long as no task fails, the three loops stay tasks of the running event loop: with
  the event set, the socket there and the queues there, no turn of a loop ends it.
\<close>

lemma loops_step:
  assumes "thread_inv st" and "thread st = In_run_forever \<longrightarrow> loops_running st"
    and "step a st = Some st'" and "\<forall>t. a \<noteq> Fail t"
  shows "thread st' = In_run_forever \<longrightarrow> loops_running st'"
proof (cases a)
  case (Run rid)
  with assms show ?thesis
    by (auto simp: inv_defs run_defs ensure_future_def Let_def
        split: thread_pc.splits option.splits if_splits)
next
  case Disconnect
  from assms(3) Disconnect have "running Monitor_disconnects st" by (simp split: if_splits)
  from disconnect_enabled [OF assms(1) this] assms(3) Disconnect show ?thesis by simp
next
  case (Inbound m)
  with assms show ?thesis
    by (auto simp: running_def inv_defs receive_message_def receive_next_def
          FutureCollection_set_result_def FutureCollection_remove_def Future_set_result_def
        split: if_splits option.splits)
next
  case Outbound
  with assms show ?thesis
    by (auto simp: running_def inv_defs send_message_def
        split: if_splits option.splits list.splits)
next
  case (Put m)
  with assms show ?thesis
    by (auto simp: running_def inv_defs private_put_message_def task_done_def
        split: if_splits option.splits)
next
  case Deliver
  with assms show ?thesis
    by (auto simp: running_def inv_defs private_get_message_def task_done_def
        split: if_splits option.splits list.splits)
next
  case (Send_accept mt c rid)
  with assms show ?thesis
    by (auto simp: inv_defs send_accept_def Future_new_def FutureCollection_put_def Let_def
        split: if_splits option.splits)
next
  case (Send mt c rid)
  with assms show ?thesis
    by (auto simp: inv_defs caller_defs Let_def split: if_splits option.splits)
next
  case (Send_back mt cid c)
  with assms show ?thesis
    by (auto simp: inv_defs send_back_def put_message_def ensure_future_def
        split: if_splits option.splits)
next
  case (Put_call m)
  with assms show ?thesis
    by (auto simp: inv_defs put_message_def ensure_future_def split: if_splits option.splits)
next
  case Receive
  with assms show ?thesis
    by (auto simp: inv_defs receive_def ensure_future_def split: if_splits option.splits)
next
  case (Fail t)
  with assms(4) show ?thesis by simp
next
  case Close
  with assms show ?thesis
    by (auto simp: inv_defs shutdown_defs split: if_splits option.splits)
next
  case Done_callback
  with assms show ?thesis
    by (auto simp: inv_defs shutdown_defs Let_def split: if_splits option.splits)
qed

lemma loops_exec:
  "exec as st = Some st' \<Longrightarrow> thread_inv st \<Longrightarrow>
   (thread st = In_run_forever \<longrightarrow> loops_running st) \<Longrightarrow> \<forall>t. Fail t \<notin> set as \<Longrightarrow>
     thread st' = In_run_forever \<longrightarrow> loops_running st'"
proof (induction as arbitrary: st)
  case Nil
  then show ?case by simp
next
  case (Cons a as)
  then obtain st1 where s: "step a st = Some st1" and e: "exec as st1 = Some st'"
    by (auto split: option.splits)
  from Cons.prems(4) have nf: "\<forall>t. a \<noteq> Fail t" and rest: "\<forall>t. Fail t \<notin> set as"
    by auto
  from loops_step [OF Cons.prems(2,3) s nf] thread_inv_step [OF Cons.prems(2) s]
    Cons.IH [OF e _ _ rest]
  show ?case by blast
qed

text \<open>
  Claim C9 says that \<open>is_ready()\<close> is true only while the socket is connected and the
  loops are running, and never before the first connection. The constructor sets the
  event itself (\<open>self._event.set()\<close>), so a new client is ready although it has no
  socket and no loop yet.
\<close>

theorem ready_before_connection:
  "\<not> (is_ready (Stream_init ''localhost:4004'') \<longrightarrow>
        connected (Stream_init ''localhost:4004'') \<and> loops_running (Stream_init ''localhost:4004''))"
  by (simp add: is_ready_def Stream_init_def connected_def)

text \<open>
  Claim C9, amended. The readiness flag is true from the construction of the client,
  before any connection exists. From the thread's first pass on it is true while the
  thread is inside \<open>run_forever()\<close>, where the socket is connected and, unless a task has
  ended with an exception, the three loops are tasks of the event loop; and it is false
  from the disconnect handler until the next pass, while there is no socket and no
  loop. Neither a failing loop nor shutdown clears it: after the shutdown callback the
  flag is still true although the socket is closed. The statement is about every state
  the client reaches from its construction by a sequence \<open>as\<close> of actions.
\<close>

theorem ready_while_connected:
  assumes "exec as (Stream_init u) = Some st"
  shows "case thread st of
           At_start \<Rightarrow> is_ready st \<and> sock st = None \<and> tasks st = []
         | In_run_forever \<Rightarrow>
             is_ready st \<and> connected st \<and> ((\<exists>t. Fail t \<in> set as) \<or> loops_running st)
         | After_run_forever \<Rightarrow> \<not> is_ready st \<and> sock st = None \<and> loops_absent st
         | Shut_down \<Rightarrow> is_ready st \<and> \<not> connected st"
proof -
  have re: "reachable u st" using exec_reachable [OF reachable.init assms] .
  have i0: "thread_inv (Stream_init u)" by (rule thread_inv_init)
  have l0: "thread (Stream_init u) = In_run_forever \<longrightarrow> loops_running (Stream_init u)"
    by (simp add: Stream_init_def)
  have l: "(\<exists>t. Fail t \<in> set as) \<or> (thread st = In_run_forever \<longrightarrow> loops_running st)"
    using loops_exec [OF assms i0 l0] by blast
  from reachable_thread_inv [OF re] l show ?thesis
    by (auto simp: thread_inv_def is_ready_def tasks_def split: thread_pc.splits)
qed

text \<open>
  The theorem on a connected client, on the same client after a disconnect, after its
  receive loop has failed, and after shutdown.
\<close>

theorem ready_while_connected_witness:
  "(case exec [Run ''0123456789abcdef0123''] (Stream_init ''localhost:4004'') of
      None \<Rightarrow> False
    | Some st \<Rightarrow> thread st = In_run_forever \<and> is_ready st \<and> connected st \<and> loops_running st) \<and>
   (case exec [Run ''0123456789abcdef0123'', Disconnect] (Stream_init ''localhost:4004'') of
      None \<Rightarrow> False
    | Some st \<Rightarrow> thread st = After_run_forever \<and> \<not> is_ready st \<and> sock st = None \<and> loops_absent st) \<and>
   (case exec [Run ''0123456789abcdef0123'', Fail Receive_message]
           (Stream_init ''localhost:4004'') of
      None \<Rightarrow> False
    | Some st \<Rightarrow> thread st = In_run_forever \<and> is_ready st \<and> connected st \<and> \<not> loops_running st) \<and>
   (case exec [Run ''0123456789abcdef0123'', Close, Disconnect, Run ''fedcba9876543210fedc'',
               Done_callback] (Stream_init ''localhost:4004'') of
      None \<Rightarrow> False
    | Some st \<Rightarrow> thread st = Shut_down \<and> is_ready st \<and> \<not> connected st)"
proof -
  obtain st1 where e1:
      "exec [Run ''0123456789abcdef0123''] (Stream_init ''localhost:4004'') = Some st1"
    and t1: "thread st1 = In_run_forever"
    by (simp add: eval_defs)
  obtain st2 where e2:
      "exec [Run ''0123456789abcdef0123'', Disconnect] (Stream_init ''localhost:4004'') = Some st2"
    and t2: "thread st2 = After_run_forever"
    by (simp add: eval_defs)
  obtain st3 where e3:
      "exec [Run ''0123456789abcdef0123'', Fail Receive_message]
         (Stream_init ''localhost:4004'') = Some st3"
    and t3: "thread st3 = In_run_forever" "\<not> loops_running st3"
    by (simp add: eval_defs task_done_def loops_running_def)
  obtain st4 where e4:
      "exec [Run ''0123456789abcdef0123'', Close, Disconnect, Run ''fedcba9876543210fedc'',
             Done_callback] (Stream_init ''localhost:4004'') = Some st4"
    and t4: "thread st4 = Shut_down"
    by (simp add: eval_defs)
  from ready_while_connected [OF e1] ready_while_connected [OF e2]
    ready_while_connected [OF e3] ready_while_connected [OF e4] t1 t2 t3 t4
  show ?thesis unfolding e1 e2 e3 e4 by simp
qed

section \<open>The reconnect event\<close>

text \<open>The receive loop only appends to the receive queue, however its turn ends.\<close>

lemma receive_message_appends:
  assumes "recv_queue st = Some (x # q)"
  shows "\<exists>q'. recv_queue (outcome_state (receive_message m st)) = Some (x # q')"
  using assms
  by (auto simp: receive_message_def receive_next_def FutureCollection_set_result_def
        FutureCollection_remove_def Future_set_result_def split: option.splits)

text \<open>
  Claim C6. Whenever the thread starts a pass after \<open>run_forever()\<close> has returned, that
  is on every reconnect, the new receive queue holds \<open>RECONNECT_EVENT\<close> and nothing else
  when the setup is done, at which point none of the three loops is a task yet; the loops
  are started after that. On the first pass the new queue is empty. Since the receive
  loop only appends to the queue and \<open>_get_message\<close> takes from its head, a consumer
  gets the event before every message of the new connection; messages of the connection
  before are not in this queue.
\<close>

theorem reconnect_event_pushed:
  assumes "reachable u st"
  shows "(thread st = After_run_forever \<longrightarrow>
            step (Run rid) st = Some (run_pass rid (run_forever_returned st)) \<and>
            recv_queue (run_setup rid (run_forever_returned st)) = Some [Event RECONNECT_EVENT] \<and>
            loops_absent (run_setup rid (run_forever_returned st)) \<and>
            recv_queue (run_pass rid (run_forever_returned st)) = Some [Event RECONNECT_EVENT] \<and>
            loops_running (run_pass rid (run_forever_returned st))) \<and>
         (thread st = At_start \<longrightarrow>
            step (Run rid) st = Some (run_pass rid st) \<and>
            recv_queue (run_pass rid st) = Some []) \<and>
         (\<forall>q m. recv_queue st = Some (Event RECONNECT_EVENT # q) \<longrightarrow>
            private_get_message st =
              Returns (Event RECONNECT_EVENT) (st\<lparr>recv_queue := Some q\<rparr>) \<and>
            (\<exists>q'. recv_queue (outcome_state (receive_message m st)) =
                     Some (Event RECONNECT_EVENT # q')))"
proof -
  have inv: "thread_inv st" using reachable_thread_inv [OF assms] .
  have a: "thread st = After_run_forever \<longrightarrow>
            step (Run rid) st = Some (run_pass rid (run_forever_returned st)) \<and>
            recv_queue (run_setup rid (run_forever_returned st)) = Some [Event RECONNECT_EVENT] \<and>
            loops_absent (run_setup rid (run_forever_returned st)) \<and>
            recv_queue (run_pass rid (run_forever_returned st)) = Some [Event RECONNECT_EVENT] \<and>
            loops_running (run_pass rid (run_forever_returned st))"
    using inv
    by (auto simp: inv_defs run_defs ensure_future_def Let_def split: option.splits)
  have b: "thread st = At_start \<longrightarrow>
            step (Run rid) st = Some (run_pass rid st) \<and>
            recv_queue (run_pass rid st) = Some []"
    using inv by (auto simp: inv_defs run_defs ensure_future_def Let_def)
  have c: "\<forall>q m. recv_queue st = Some (Event RECONNECT_EVENT # q) \<longrightarrow>
            private_get_message st =
              Returns (Event RECONNECT_EVENT) (st\<lparr>recv_queue := Some q\<rparr>) \<and>
            (\<exists>q'. recv_queue (outcome_state (receive_message m st)) =
                     Some (Event RECONNECT_EVENT # q'))"
    using receive_message_appends by (simp add: private_get_message_def)
  from a b c show ?thesis by blast
qed

text \<open>The theorem on a client that lost its first connection and connects again.\<close>

theorem reconnect_event_pushed_witness:
  "(case exec [Run ''0123456789abcdef0123'', Disconnect] (Stream_init ''localhost:4004'') of
      None \<Rightarrow> False
    | Some st \<Rightarrow>
        thread st = After_run_forever \<and>
        step (Run ''fedcba9876543210fedc'') st =
          Some (run_pass ''fedcba9876543210fedc'' (run_forever_returned st)) \<and>
        recv_queue (run_pass ''fedcba9876543210fedc'' (run_forever_returned st)) =
          Some [Event RECONNECT_EVENT] \<and>
        loops_running (run_pass ''fedcba9876543210fedc'' (run_forever_returned st))) \<and>
   (case exec [Run ''0123456789abcdef0123'', Disconnect, Run ''fedcba9876543210fedc'']
           (Stream_init ''localhost:4004'') of
      None \<Rightarrow> False
    | Some st \<Rightarrow>
        recv_queue st = Some [Event RECONNECT_EVENT] \<and>
        private_get_message st = Returns (Event RECONNECT_EVENT) (st\<lparr>recv_queue := Some []\<rparr>) \<and>
        recv_queue (outcome_state (receive_message
            \<lparr>message_type = 7, correlation_id = ''x1'', content = ''hello''\<rparr> st)) =
          Some [Event RECONNECT_EVENT,
                Message \<lparr>message_type = 7, correlation_id = ''x1'', content = ''hello''\<rparr>])"
proof -
  obtain st1 where e1:
      "exec [Run ''0123456789abcdef0123'', Disconnect] (Stream_init ''localhost:4004'') = Some st1"
    and t1: "thread st1 = After_run_forever"
    by (simp add: eval_defs)
  obtain st2 where e2:
      "exec [Run ''0123456789abcdef0123'', Disconnect, Run ''fedcba9876543210fedc'']
         (Stream_init ''localhost:4004'') = Some st2"
    and q2: "recv_queue st2 = Some [Event RECONNECT_EVENT]"
    and f2: "futures st2 = []" "ready_event st2" "sock st2 \<noteq> None"
    by (simp add: eval_defs)
  have r1: "reachable ''localhost:4004'' st1"
    using exec_reachable [OF reachable.init e1] .
  have r2: "reachable ''localhost:4004'' st2"
    using exec_reachable [OF reachable.init e2] .
  have m: "recv_queue (outcome_state (receive_message
            \<lparr>message_type = 7, correlation_id = ''x1'', content = ''hello''\<rparr> st2)) =
          Some [Event RECONNECT_EVENT,
                Message \<lparr>message_type = 7, correlation_id = ''x1'', content = ''hello''\<rparr>]"
    using q2 f2
    by (auto simp: receive_message_def receive_next_def FutureCollection_set_result_def)
  from reconnect_event_pushed [OF r1, of "''fedcba9876543210fedc''"]
    reconnect_event_pushed [OF r2, of "''fedcba9876543210fedc''"] e1 e2 t1 q2 m
  show ?thesis by simp
qed

section \<open>Messages that answer no request\<close>

text \<open>As many runs of \<open>_get_message\<close> as the queue has items return the items in order.\<close>

lemma deliveries_queue:
  "recv_queue st = Some q \<Longrightarrow>
     deliveries (length q) st = Some (q, st\<lparr>recv_queue := Some []\<rparr>)"
proof (induction q arbitrary: st)
  case Nil
  then have "st\<lparr>recv_queue := Some []\<rparr> = st" by simp
  then show ?case by simp
next
  case (Cons x q)
  have "recv_queue (st\<lparr>recv_queue := Some q\<rparr>) = Some q" by simp
  from Cons.IH [OF this] Cons.prems show ?case
    by (simp add: private_get_message_def)
qed

text \<open>
  Claim C3 says that an inbound message whose correlation id has no future in the
  collection is put on the receive queue and later delivered by \<open>receive()\<close>, never
  dropped. The message is put on the queue, but the disconnect handler sets the queue to
  \<open>None\<close> (line 146) and cancels every task: a message that has not been taken by then
  is gone, and the queue of the next connection starts with the reconnect event alone.
\<close>

theorem unsolicited_dropped_on_disconnect:
  "(case exec [Run ''0123456789abcdef0123'',
               Inbound \<lparr>message_type = 7, correlation_id = ''x1'', content = ''hello''\<rparr>]
          (Stream_init ''localhost:4004'') of
      None \<Rightarrow> False
    | Some st \<Rightarrow>
        recv_queue st =
          Some [Message \<lparr>message_type = 7, correlation_id = ''x1'', content = ''hello''\<rparr>]) \<and>
   (case exec [Run ''0123456789abcdef0123'',
               Inbound \<lparr>message_type = 7, correlation_id = ''x1'', content = ''hello''\<rparr>,
               Disconnect]
          (Stream_init ''localhost:4004'') of
      None \<Rightarrow> False
    | Some st \<Rightarrow> recv_queue st = None \<and> tasks st = []) \<and>
   (case exec [Run ''0123456789abcdef0123'',
               Inbound \<lparr>message_type = 7, correlation_id = ''x1'', content = ''hello''\<rparr>,
               Disconnect, Run ''fedcba9876543210fedc'']
          (Stream_init ''localhost:4004'') of
      None \<Rightarrow> False
    | Some st \<Rightarrow> recv_queue st = Some [Event RECONNECT_EVENT])"
  by (simp add: eval_defs)

text \<open>
  Claim C3, amended. While the receive loop is running, an inbound message whose
  correlation id has no future in the collection resolves no future: the client's state
  changes in the receive queue alone, to which the message is appended unmodified. As
  long as the queue is not discarded by a disconnect, runs of \<open>_get_message\<close> return
  its items in arrival order, the message after those that were there before it. (In
  every reachable state in which the loop runs, the event is set and the queue exists,
  so the second test of the event on line 100 does not end the loop.)
\<close>

theorem unsolicited_queued:
  assumes "reachable u st" and "running Receive_message st"
    and "map_of (futures st) (correlation_id m) = None"
  shows "\<exists>q. recv_queue st = Some q \<and>
              receive_message m st = Returns Continue (st\<lparr>recv_queue := Some (q @ [Message m])\<rparr>) \<and>
              step (Inbound m) st = Some (st\<lparr>recv_queue := Some (q @ [Message m])\<rparr>) \<and>
              deliveries (Suc (length q)) (st\<lparr>recv_queue := Some (q @ [Message m])\<rparr>) =
                Some (q @ [Message m], st\<lparr>recv_queue := Some []\<rparr>)"
proof -
  have inv: "thread_inv st" using reachable_thread_inv [OF assms(1)] .
  from assms(2) have t: "thread st = In_run_forever" by (simp add: running_def)
  with inv obtain q where q: "recv_queue st = Some q" and r: "ready_event st"
    and s: "sock st \<noteq> None"
    by (auto simp: thread_inv_def connected_def split: option.splits)
  have rm: "receive_message m st = Returns Continue (st\<lparr>recv_queue := Some (q @ [Message m])\<rparr>)"
    using q r s assms(3)
    by (simp add: receive_message_def receive_next_def FutureCollection_set_result_def)
  have d: "deliveries (length (q @ [Message m])) (st\<lparr>recv_queue := Some (q @ [Message m])\<rparr>) =
             Some (q @ [Message m], st\<lparr>recv_queue := Some (q @ [Message m])\<rparr>\<lparr>recv_queue := Some []\<rparr>)"
    by (rule deliveries_queue) simp
  show ?thesis using q rm d assms(2) by simp
qed

text \<open>The theorem for a second unsolicited message on a connected client.\<close>

theorem unsolicited_queued_witness:
  "case exec [Run ''0123456789abcdef0123'',
              Inbound \<lparr>message_type = 7, correlation_id = ''x1'', content = ''hello''\<rparr>]
         (Stream_init ''localhost:4004'') of
     None \<Rightarrow> False
   | Some st \<Rightarrow>
       running Receive_message st \<and>
       map_of (futures st) ''x2'' = None \<and>
       step (Inbound \<lparr>message_type = 8, correlation_id = ''x2'', content = ''again''\<rparr>) st =
         Some (st\<lparr>recv_queue := Some
           [Message \<lparr>message_type = 7, correlation_id = ''x1'', content = ''hello''\<rparr>,
            Message \<lparr>message_type = 8, correlation_id = ''x2'', content = ''again''\<rparr>]\<rparr>) \<and>
       deliveries 2 (st\<lparr>recv_queue := Some
           [Message \<lparr>message_type = 7, correlation_id = ''x1'', content = ''hello''\<rparr>,
            Message \<lparr>message_type = 8, correlation_id = ''x2'', content = ''again''\<rparr>]\<rparr>) =
         Some ([Message \<lparr>message_type = 7, correlation_id = ''x1'', content = ''hello''\<rparr>,
                Message \<lparr>message_type = 8, correlation_id = ''x2'', content = ''again''\<rparr>],
               st\<lparr>recv_queue := Some []\<rparr>)"
proof -
  obtain st where e:
      "exec [Run ''0123456789abcdef0123'',
             Inbound \<lparr>message_type = 7, correlation_id = ''x1'', content = ''hello''\<rparr>]
         (Stream_init ''localhost:4004'') = Some st"
    and r: "running Receive_message st"
    and f: "map_of (futures st)
              (correlation_id \<lparr>message_type = 8, correlation_id = ''x2'', content = ''again''\<rparr>) = None"
    and q: "recv_queue st =
              Some [Message \<lparr>message_type = 7, correlation_id = ''x1'', content = ''hello''\<rparr>]"
    by (simp add: eval_defs)
  have re: "reachable ''localhost:4004'' st"
    using exec_reachable [OF reachable.init e] .
  from unsolicited_queued [OF re r f] q
  have k: "step (Inbound \<lparr>message_type = 8, correlation_id = ''x2'', content = ''again''\<rparr>) st =
         Some (st\<lparr>recv_queue := Some
           [Message \<lparr>message_type = 7, correlation_id = ''x1'', content = ''hello''\<rparr>,
            Message \<lparr>message_type = 8, correlation_id = ''x2'', content = ''again''\<rparr>]\<rparr>) \<and>
       deliveries (Suc (Suc 0)) (st\<lparr>recv_queue := Some
           [Message \<lparr>message_type = 7, correlation_id = ''x1'', content = ''hello''\<rparr>,
            Message \<lparr>message_type = 8, correlation_id = ''x2'', content = ''again''\<rparr>]\<rparr>) =
         Some ([Message \<lparr>message_type = 7, correlation_id = ''x1'', content = ''hello''\<rparr>,
                Message \<lparr>message_type = 8, correlation_id = ''x2'', content = ''again''\<rparr>],
               st\<lparr>recv_queue := Some []\<rparr>)"
    by (simp del: step.simps deliveries.simps)
  show ?thesis unfolding e using r f k
    by (simp add: numeral_2_eq_2 del: step.simps deliveries.simps)
qed

section \<open>The collection of futures across a disconnect\<close>

text \<open>
  Claim C5 says that on each disconnect every entry is taken out of the collection of
  futures, so that it is empty when the next connection uses it. The disconnect handler
  resolves every future of the collection with \<open>FutureError\<close> and removes none (the
  receive loop, for comparison, removes an entry right after resolving it). Here a
  client sends one request and loses its connection: the entry is still in the
  collection after the handler has run, and still there when the client is ready again.
\<close>

theorem registry_not_drained:
  "(case exec [Run ''0123456789abcdef0123'', Send 7 ''ping'' ''c1'', Disconnect]
          (Stream_init ''localhost:4004'') of
      None \<Rightarrow> False
    | Some st \<Rightarrow>
        futures st = [(''c1'', 0)] \<and> future_result (heap st 0) = Some FutureError) \<and>
   (case exec [Run ''0123456789abcdef0123'', Send 7 ''ping'' ''c1'', Disconnect,
               Run ''fedcba9876543210fedc'']
          (Stream_init ''localhost:4004'') of
      None \<Rightarrow> False
    | Some st \<Rightarrow> is_ready st \<and> futures st = [(''c1'', 0)])"
  by (simp add: eval_defs)

section \<open>Pending futures at a disconnect\<close>

text \<open>
  A call of \<open>set_result\<close> resolves the future it is made on if that is pending, and
  changes no other future; the handler's loop does so for every future of the
  collection.
\<close>

lemma set_result_result:
  "future_result (heap (Future_set_result a r st) x) =
     (if x = a \<and> future_result (heap st a) = None then Some r else future_result (heap st x))"
  by (simp add: Future_set_result_def split: option.splits)

lemma fold_set_result_result:
  "future_result (heap (fold (\<lambda>a. Future_set_result a r) as st) x) =
     (if x \<in> set as \<and> future_result (heap st x) = None then Some r
      else future_result (heap st x))"
proof (induction as arbitrary: st)
  case Nil
  then show ?case by simp
next
  case (Cons a as)
  have "future_result (heap (fold (\<lambda>a. Future_set_result a r) (a # as) st) x) =
      (if x \<in> set as \<and> future_result (heap (Future_set_result a r st) x) = None then Some r
       else future_result (heap (Future_set_result a r st) x))"
    using Cons.IH [of "Future_set_result a r st"] by simp
  then show ?case
    by (cases "future_result (heap st x)") (auto simp: set_result_result)
qed

lemma fail_futures_result:
  "future_result (heap (fail_futures st) x) =
     (if x \<in> set (FutureCollection_future_values st) \<and> future_result (heap st x) = None
      then Some FutureError else future_result (heap st x))"
  unfolding fail_futures_def by (rule fold_set_result_result)

lemma disconnect_result:
  assumes "step Disconnect st = Some st1"
  shows "future_result (heap st1 x) =
     (if x \<in> set (FutureCollection_future_values st) \<and> future_result (heap st x) = None
      then Some FutureError else future_result (heap st x))"
proof -
  obtain h where h:
      "fail_futures (st\<lparr>ready_event := False\<rparr>) = st\<lparr>ready_event := False, heap := h\<rparr>"
    using fail_futures_heap [of "st\<lparr>ready_event := False\<rparr>"] by auto
  have hx: "future_result (h x) =
     (if x \<in> set (FutureCollection_future_values st) \<and> future_result (heap st x) = None
      then Some FutureError else future_result (heap st x))"
    using fail_futures_result [of "st\<lparr>ready_event := False\<rparr>" x]
    by (simp add: h FutureCollection_future_values_def)
  from assms have "heap st1 = h"
    by (auto simp: monitor_disconnects_def h task_done_def Let_def split: if_splits option.splits)
  with hx show ?thesis by simp
qed

lemma in_update: "(k', v') \<in> set (AList.update k v al) \<Longrightarrow> v' = v \<or> (k', v') \<in> set al"
  by (induction al) (auto split: if_splits)

lemma in_delete: "x \<in> set (AList.delete k al) \<Longrightarrow> x \<in> set al"
  by (induction al) (auto split: if_splits)

text \<open>
  What an action does to the collection and to the futures: it leaves the collection as
  it is, and then only a disconnect changes futures, failing pending ones of the
  collection; or it is a message answering a registered request, which resolves that
  future if it is pending and deletes its entry; or it is a \<open>send\<close>, which enters a newly
  allocated pending future.
\<close>

lemma step_effect:
  assumes "step act st = Some st'"
  shows
    "(futures st' = futures st \<and> allocated st' = allocated st \<and>
      (\<forall>x. future_result (heap st' x) = future_result (heap st x) \<or>
           (act = Disconnect \<and> x \<in> set (FutureCollection_future_values st) \<and>
            future_result (heap st x) = None \<and>
            future_result (heap st' x) = Some FutureError))) \<or>
     (\<exists>m a. act = Inbound m \<and> map_of (futures st) (correlation_id m) = Some a \<and>
        futures st' = AList.delete (correlation_id m) (futures st) \<and>
        allocated st' = allocated st \<and>
        (\<forall>x. future_result (heap st' x) =
           (if x = a \<and> future_result (heap st a) = None
            then Some (FutureResult (message_type m) (content m))
            else future_result (heap st x)))) \<or>
     (\<exists>mt c rid. act \<in> {Send mt c rid, Send_accept mt c rid} \<and>
        futures st' = AList.update rid (allocated st) (futures st) \<and>
        allocated st' = Suc (allocated st) \<and>
        (\<forall>x. x \<noteq> allocated st \<longrightarrow> heap st' x = heap st x) \<and>
        future_result (heap st' (allocated st)) = None)"
proof (cases act)
  case (Run rid)
  with assms show ?thesis
    by (auto simp: run_defs ensure_future_def Let_def split: thread_pc.splits if_splits option.splits)
next
  case Disconnect
  obtain h where h:
      "fail_futures (st\<lparr>ready_event := False\<rparr>) = st\<lparr>ready_event := False, heap := h\<rparr>"
    using fail_futures_heap [of "st\<lparr>ready_event := False\<rparr>"] by auto
  from assms Disconnect have f: "futures st' = futures st" "allocated st' = allocated st"
    by (auto simp: monitor_disconnects_def h task_done_def Let_def split: if_splits option.splits)
  from assms Disconnect have d: "step Disconnect st = Some st'" by simp
  have "future_result (heap st' x) = future_result (heap st x) \<or>
           (x \<in> set (FutureCollection_future_values st) \<and>
            future_result (heap st x) = None \<and>
            future_result (heap st' x) = Some FutureError)" for x
    using disconnect_result [OF d, of x] by (cases "future_result (heap st x)") auto
  with f Disconnect show ?thesis by blast
next
  case (Inbound m)
  show ?thesis
  proof (cases "map_of (futures st) (correlation_id m)")
    case None
    with assms Inbound show ?thesis
      by (auto simp: receive_message_def receive_next_def FutureCollection_set_result_def
            task_done_def split: if_splits option.splits)
  next
    case (Some a)
    let ?st1 = "FutureCollection_remove (correlation_id m)
        (Future_set_result a (FutureResult (message_type m) (content m)) st)"
    from assms Inbound Some have "st' = ?st1 \<or> st' = task_done Receive_message ?st1"
      by (auto simp: receive_message_def receive_next_def FutureCollection_set_result_def
          split: if_splits)
    then have f: "futures st' = AList.delete (correlation_id m) (futures st)"
      and al: "allocated st' = allocated st"
      and hp: "heap st' = heap (Future_set_result a (FutureResult (message_type m) (content m)) st)"
      by (auto simp: FutureCollection_remove_def Future_set_result_def task_done_def
          split: option.splits)
    have "future_result (heap st' x) =
           (if x = a \<and> future_result (heap st a) = None
            then Some (FutureResult (message_type m) (content m))
            else future_result (heap st x))" for x
      by (simp add: hp set_result_result)
    with Inbound Some f al show ?thesis by blast
  qed
next
  case Outbound
  with assms show ?thesis
    by (auto simp: send_message_def task_done_def split: if_splits option.splits list.splits)
next
  case (Put m)
  with assms show ?thesis
    by (auto simp: private_put_message_def task_done_def split: if_splits option.splits)
next
  case Deliver
  with assms show ?thesis
    by (auto simp: private_get_message_def task_done_def split: if_splits option.splits list.splits)
next
  case (Send_accept mt c rid)
  with assms show ?thesis
    by (auto simp: send_accept_def Future_new_def FutureCollection_put_def Let_def
        split: if_splits)
next
  case (Send mt c rid)
  with assms show ?thesis
    by (auto simp: caller_defs Let_def split: if_splits)
next
  case (Send_back mt cid c)
  with assms show ?thesis
    by (auto simp: send_back_def put_message_def ensure_future_def split: if_splits)
next
  case (Put_call m)
  with assms show ?thesis
    by (auto simp: put_message_def ensure_future_def split: if_splits)
next
  case Receive
  with assms show ?thesis
    by (auto simp: receive_def ensure_future_def split: if_splits)
next
  case (Fail t)
  with assms show ?thesis
    by (auto simp: task_done_def split: if_splits)
next
  case Close
  with assms show ?thesis
    by (auto simp: shutdown_defs split: if_splits)
next
  case Done_callback
  with assms show ?thesis
    by (auto simp: shutdown_defs Let_def split: if_splits option.splits)
qed

text \<open>A future that has been resolved keeps its resolution, whatever happens next.\<close>

lemma step_results:
  assumes "step act st = Some st'" and "x < allocated st"
  shows "allocated st \<le> allocated st' \<and>
         (\<forall>v. future_result (heap st x) = Some v \<longrightarrow> future_result (heap st' x) = Some v)"
  using step_effect [OF assms(1)]
proof (elim disjE exE conjE)
  assume "allocated st' = allocated st"
    and "\<forall>x. future_result (heap st' x) = future_result (heap st x) \<or>
          (act = Disconnect \<and> x \<in> set (FutureCollection_future_values st) \<and>
           future_result (heap st x) = None \<and> future_result (heap st' x) = Some FutureError)"
  then show ?thesis by (metis option.distinct(1) order_refl)
next
  fix m a
  assume "allocated st' = allocated st"
    and "\<forall>x. future_result (heap st' x) =
           (if x = a \<and> future_result (heap st a) = None
            then Some (FutureResult (message_type m) (content m))
            else future_result (heap st x))"
  then show ?thesis by auto
next
  fix mt c rid
  assume "allocated st' = Suc (allocated st)"
    and "\<forall>x. x \<noteq> allocated st \<longrightarrow> heap st' x = heap st x"
  with assms(2) show ?thesis by auto
qed

lemma exec_results:
  "exec as st = Some st' \<Longrightarrow> x < allocated st \<Longrightarrow> future_result (heap st x) = Some v \<Longrightarrow>
     future_result (heap st' x) = Some v"
proof (induction as arbitrary: st)
  case Nil
  then show ?case by simp
next
  case (Cons a as)
  from Cons.prems(1) obtain st1 where s: "step a st = Some st1" and e: "exec as st1 = Some st'"
    by (auto split: option.splits)
  from step_results [OF s Cons.prems(2)] Cons.prems(2,3)
  have "x < allocated st1" "future_result (heap st1 x) = Some v" by auto
  with Cons.IH [OF e] show ?case by simp
qed

section \<open>The collection of futures stays well formed\<close>

text \<open>
  No correlation id and no future is ever in the collection twice, and a future in it
  has been allocated and has received no result from the validator.
\<close>

lemma distinct_snd_update:
  "distinct (map snd al) \<Longrightarrow> v \<notin> snd ` set al \<Longrightarrow> distinct (map snd (AList.update k v al))"
proof (induction al)
  case Nil
  then show ?case by simp
next
  case (Cons p al)
  then show ?case by (cases p) (force dest: in_update)
qed

lemma distinct_snd_delete:
  "distinct (map snd al) \<Longrightarrow> distinct (map snd (AList.delete k al))"
  by (simp add: AList.delete_eq distinct_map_filter)

lemma same_future_same_id:
  assumes "distinct (map snd al)" and "(k, a) \<in> set al" and "(k', a) \<in> set al"
  shows "k = k'"
proof -
  from assms(1) have "inj_on snd (set al)" by (simp add: distinct_map)
  from inj_onD [OF this, of "(k, a)" "(k', a)"] assms(2,3) show ?thesis by simp
qed

lemma deleted_future_gone:
  assumes "distinct (map snd al)" and "map_of al k = Some a"
  shows "a \<notin> snd ` set (AList.delete k al)"
proof
  assume "a \<in> snd ` set (AList.delete k al)"
  then obtain k' where d: "(k', a) \<in> set (AList.delete k al)" by auto
  then have "k' \<noteq> k" by (auto simp: AList.delete_eq)
  moreover from d have "(k', a) \<in> set al" by (rule in_delete)
  moreover from assms(2) have "(k, a) \<in> set al" by (rule map_of_SomeD)
  ultimately show False using same_future_same_id [OF assms(1)] by blast
qed

lemma registry_invI:
  assumes "distinct (map fst (futures st))" and "distinct (map snd (futures st))"
    and "\<And>k a. (k, a) \<in> set (futures st) \<Longrightarrow>
      a < allocated st \<and>
      (future_result (heap st a) = None \<or> future_result (heap st a) = Some FutureError)"
  shows "registry_inv st"
  using assms by (fastforce simp: registry_inv_def)

lemma registry_inv_step:
  assumes "registry_inv st" and "step act st = Some st'"
  shows "registry_inv st'"
proof -
  from assms(1) have d1: "distinct (map fst (futures st))"
    and d2: "distinct (map snd (futures st))"
    and lt: "\<And>k a. (k, a) \<in> set (futures st) \<Longrightarrow> a < allocated st"
    and pe: "\<And>k a. (k, a) \<in> set (futures st) \<Longrightarrow>
        future_result (heap st a) = None \<or> future_result (heap st a) = Some FutureError"
    by (auto simp: registry_inv_def)
  from lt have fresh: "allocated st \<notin> snd ` set (futures st)" by force
  from step_effect [OF assms(2)] show ?thesis
  proof (elim disjE exE conjE)
    assume f: "futures st' = futures st" and al: "allocated st' = allocated st"
      and h: "\<forall>x. future_result (heap st' x) = future_result (heap st x) \<or>
          (act = Disconnect \<and> x \<in> set (FutureCollection_future_values st) \<and>
           future_result (heap st x) = None \<and> future_result (heap st' x) = Some FutureError)"
    have "x < allocated st' \<and>
        (future_result (heap st' x) = None \<or> future_result (heap st' x) = Some FutureError)"
      if "(k, x) \<in> set (futures st')" for k x
    proof -
      from that f have i: "(k, x) \<in> set (futures st)" by simp
      from pe [OF i] h have
        "future_result (heap st' x) = None \<or> future_result (heap st' x) = Some FutureError"
        by metis
      with lt [OF i] al show ?thesis by simp
    qed
    then show ?thesis using d1 d2 f by (intro registry_invI) simp_all
  next
    fix m a
    assume mp: "map_of (futures st) (correlation_id m) = Some a"
      and f: "futures st' = AList.delete (correlation_id m) (futures st)"
      and al: "allocated st' = allocated st"
      and h: "\<forall>x. future_result (heap st' x) =
           (if x = a \<and> future_result (heap st a) = None
            then Some (FutureResult (message_type m) (content m))
            else future_result (heap st x))"
    have "x < allocated st' \<and>
        (future_result (heap st' x) = None \<or> future_result (heap st' x) = Some FutureError)"
      if "(k, x) \<in> set (futures st')" for k x
    proof -
      from that f have i: "(k, x) \<in> set (futures st)" by (auto dest: in_delete)
      from that f deleted_future_gone [OF d2 mp] have "x \<noteq> a" by force
      with h pe [OF i] lt [OF i] al show ?thesis by simp
    qed
    then show ?thesis using d1 d2 f
      by (intro registry_invI) (simp_all add: AList.distinct_delete distinct_snd_delete)
  next
    fix mt c rid
    assume f: "futures st' = AList.update rid (allocated st) (futures st)"
      and al: "allocated st' = Suc (allocated st)"
      and h: "\<forall>x. x \<noteq> allocated st \<longrightarrow> heap st' x = heap st x"
      and n: "future_result (heap st' (allocated st)) = None"
    have "x < allocated st' \<and>
        (future_result (heap st' x) = None \<or> future_result (heap st' x) = Some FutureError)"
      if "(k, x) \<in> set (futures st')" for k x
    proof (cases "x = allocated st")
      case True
      with n al show ?thesis by simp
    next
      case False
      with that f have i: "(k, x) \<in> set (futures st)" by (auto dest: in_update)
      from lt [OF i] pe [OF i] h False al show ?thesis by auto
    qed
    then show ?thesis using d1 d2 f fresh
      by (intro registry_invI) (simp_all add: AList.distinct_update distinct_snd_update)
  qed
qed

lemma reachable_registry_inv: "reachable u st \<Longrightarrow> registry_inv st"
proof (induction rule: reachable.induct)
  case init
  show ?case by (simp add: registry_inv_def Stream_init_def)
next
  case (step st a st')
  then show ?case by (blast intro: registry_inv_step)
qed

section \<open>The disconnect handler fails the registered futures\<close>

text \<open>
  Claim C4. When the disconnect handler runs, in any state the client can reach, the
  readiness flag is false afterwards and every future that was in the collection at that
  moment holds \<open>FutureError\<close>: the handler clears the flag and fails the futures in one
  uninterrupted run, and a future of the collection never holds a result of the
  validator. Whatever happens later, these futures keep that resolution, so it is there
  when the flag becomes true again; and until then every \<open>send\<close> raises
  \<open>ValidatorConnectionError\<close>.
\<close>

theorem disconnect_fails_pending:
  assumes "reachable u st" and "step Disconnect st = Some st1"
  shows "\<not> is_ready st1 \<and>
         (\<forall>a \<in> set (FutureCollection_future_values st).
            future_result (heap st1 a) = Some FutureError) \<and>
         (\<forall>as st2. exec as st1 = Some st2 \<longrightarrow>
            (\<forall>a \<in> set (FutureCollection_future_values st).
               future_result (heap st2 a) = Some FutureError)) \<and>
         (\<forall>mt c rid. send mt c rid st1 = Raises ValidatorConnectionError st1)"
proof -
  have reg: "registry_inv st" using reachable_registry_inv [OF assms(1)] .
  obtain h where h:
      "fail_futures (st\<lparr>ready_event := False\<rparr>) = st\<lparr>ready_event := False, heap := h\<rparr>"
    using fail_futures_heap [of "st\<lparr>ready_event := False\<rparr>"] by auto
  from assms(2) have st1: "\<not> ready_event st1" "allocated st1 = allocated st"
    by (auto simp: monitor_disconnects_def h task_done_def Let_def split: if_splits option.splits)
  have failed: "future_result (heap st1 a) = Some FutureError"
    if "a \<in> set (FutureCollection_future_values st)" for a
  proof -
    from that reg have
      "future_result (heap st a) = None \<or> future_result (heap st a) = Some FutureError"
      by (auto simp: registry_inv_def FutureCollection_future_values_def)
    with that disconnect_result [OF assms(2), of a] show ?thesis by auto
  qed
  have later: "future_result (heap st2 a) = Some FutureError"
    if e: "exec as st1 = Some st2" and a: "a \<in> set (FutureCollection_future_values st)"
    for as st2 a
  proof -
    from a reg have "a < allocated st1"
      by (auto simp: registry_inv_def FutureCollection_future_values_def st1)
    from exec_results [OF e this failed [OF a]] show ?thesis .
  qed
  have nosend: "send mt c rid st1 = Raises ValidatorConnectionError st1" for mt c rid
    using st1(1) by (simp add: send_def send_accept_def)
  from st1(1) failed later nosend show ?thesis
    by (simp add: is_ready_def)
qed

text \<open>The theorem for one pending request, up to the moment the client is ready again.\<close>

theorem disconnect_fails_pending_witness:
  "case exec [Run ''0123456789abcdef0123'', Send 7 ''ping'' ''c1'']
         (Stream_init ''localhost:4004'') of
     None \<Rightarrow> False
   | Some st \<Rightarrow>
       FutureCollection_future_values st = [0] \<and>
       future_result (heap st 0) = None \<and>
       (case step Disconnect st of
          None \<Rightarrow> False
        | Some st1 \<Rightarrow>
            \<not> is_ready st1 \<and>
            future_result (heap st1 0) = Some FutureError \<and>
            send 8 ''pong'' ''c2'' st1 = Raises ValidatorConnectionError st1 \<and>
            (case exec [Run ''fedcba9876543210fedc''] st1 of
               None \<Rightarrow> False
             | Some st2 \<Rightarrow>
                 is_ready st2 \<and> future_result (heap st2 0) = Some FutureError))"
proof -
  obtain st where e:
      "exec [Run ''0123456789abcdef0123'', Send 7 ''ping'' ''c1'']
         (Stream_init ''localhost:4004'') = Some st"
    and v: "FutureCollection_future_values st = [0]"
    and p: "future_result (heap st 0) = None"
    and m: "running Monitor_disconnects st"
    by (simp add: eval_defs)
  have re: "reachable ''localhost:4004'' st"
    using exec_reachable [OF reachable.init e] .
  from disconnect_enabled [OF reachable_thread_inv [OF re] m]
  obtain st1 where d: "step Disconnect st = Some st1" and t: "thread st1 = After_run_forever"
    by blast
  let ?st2 = "run_pass ''fedcba9876543210fedc'' (run_forever_returned st1)"
  have e2: "exec [Run ''fedcba9876543210fedc''] st1 = Some ?st2"
    using t by simp
  have r2: "is_ready ?st2"
    by (simp add: run_defs is_ready_def)
  from disconnect_fails_pending [OF re d] v e2
  have k: "\<not> is_ready st1 \<and> future_result (heap st1 0) = Some FutureError \<and>
      send 8 ''pong'' ''c2'' st1 = Raises ValidatorConnectionError st1 \<and>
      future_result (heap ?st2 0) = Some FutureError"
    by (simp del: exec.simps step.simps)
  show ?thesis unfolding e using v p d e2 r2 k
    by (simp del: exec.simps step.simps)
qed

section \<open>The resolution of a future\<close>

text \<open>
  A message carrying the correlation id of a registered future resolves that future, if
  it is still pending, and takes it out of the collection.
\<close>

lemma inbound_registered:
  assumes "step (Inbound m) st = Some st1"
    and "map_of (futures st) (correlation_id m) = Some a"
  shows "future_result (heap st1 a) =
           (case future_result (heap st a) of
              None \<Rightarrow> Some (FutureResult (message_type m) (content m))
            | Some v \<Rightarrow> Some v) \<and>
         futures st1 = AList.delete (correlation_id m) (futures st)"
proof -
  let ?st1 = "FutureCollection_remove (correlation_id m)
      (Future_set_result a (FutureResult (message_type m) (content m)) st)"
  from assms have "st1 = ?st1 \<or> st1 = task_done Receive_message ?st1"
    by (auto simp: receive_message_def receive_next_def FutureCollection_set_result_def
        split: if_splits)
  then have f: "futures st1 = AList.delete (correlation_id m) (futures st)"
    and hp: "heap st1 = heap (Future_set_result a (FutureResult (message_type m) (content m)) st)"
    by (auto simp: FutureCollection_remove_def Future_set_result_def task_done_def
        split: option.splits)
  show ?thesis by (simp add: f hp set_result_result split: option.splits)
qed

text \<open>Only a disconnect and a message with its correlation id resolve a future.\<close>

lemma step_resolves:
  assumes "step act st = Some st1" and "a < allocated st"
    and "future_result (heap st a) = None" and "future_result (heap st1 a) \<noteq> None"
  shows "(act = Disconnect \<and> a \<in> set (FutureCollection_future_values st)) \<or>
         (\<exists>m. act = Inbound m \<and> map_of (futures st) (correlation_id m) = Some a)"
  using step_effect [OF assms(1)]
proof (elim disjE exE conjE)
  assume "\<forall>x. future_result (heap st1 x) = future_result (heap st x) \<or>
          (act = Disconnect \<and> x \<in> set (FutureCollection_future_values st) \<and>
           future_result (heap st x) = None \<and> future_result (heap st1 x) = Some FutureError)"
  with assms(3,4) show ?thesis by metis
next
  fix m a'
  assume "act = Inbound m" "map_of (futures st) (correlation_id m) = Some a'"
    and "\<forall>x. future_result (heap st1 x) =
           (if x = a' \<and> future_result (heap st a') = None
            then Some (FutureResult (message_type m) (content m))
            else future_result (heap st x))"
  with assms(3,4) show ?thesis by (cases "a = a'") auto
next
  fix mt c rid
  assume "\<forall>x. x \<noteq> allocated st \<longrightarrow> heap st1 x = heap st x"
  with assms(2,3,4) show ?thesis by auto
qed

text \<open>
  A registered future stays registered under its correlation id until it is resolved,
  unless \<open>send\<close> is given the same id again.
\<close>

lemma step_registered:
  assumes "step act st = Some st1" and "map_of (futures st) cid = Some a"
    and "\<forall>mt c. act \<noteq> Send mt c cid \<and> act \<noteq> Send_accept mt c cid"
  shows "(act = Disconnect \<or> (\<exists>m. act = Inbound m \<and> correlation_id m = cid) \<longrightarrow>
            future_result (heap st1 a) \<noteq> None) \<and>
         (map_of (futures st1) cid = Some a \<or> future_result (heap st1 a) \<noteq> None)"
proof (cases "act = Disconnect \<or> (\<exists>m. act = Inbound m \<and> correlation_id m = cid)")
  case True
  then show ?thesis
  proof
    assume d: "act = Disconnect"
    from assms(2) have "a \<in> set (FutureCollection_future_values st)"
      by (force simp: FutureCollection_future_values_def dest: map_of_SomeD)
    with disconnect_result [of st st1 a] assms(1) d show ?thesis by auto
  next
    assume "\<exists>m. act = Inbound m \<and> correlation_id m = cid"
    then obtain m where m: "act = Inbound m" "correlation_id m = cid" by blast
    with inbound_registered [of m st st1 a] assms(1,2) show ?thesis
      by (auto split: option.splits)
  qed
next
  case False
  from step_effect [OF assms(1)]
  have "map_of (futures st1) cid = Some a"
  proof (elim disjE exE conjE)
    assume "futures st1 = futures st"
    with assms(2) show ?thesis by simp
  next
    fix m a'
    assume "act = Inbound m" "futures st1 = AList.delete (correlation_id m) (futures st)"
    with False assms(2) show ?thesis by (simp add: AList.delete_conv)
  next
    fix mt c rid
    assume "act \<in> {Send mt c rid, Send_accept mt c rid}"
      and "futures st1 = AList.update rid (allocated st) (futures st)"
    with assms(2,3) show ?thesis by (auto simp: AList.update_conv)
  qed
  with False show ?thesis by auto
qed

text \<open>
  So a registered future has been resolved once a disconnect was handled or a message
  with its correlation id was received.
\<close>

lemma exec_resolves:
  assumes "registry_inv st" and "map_of (futures st) cid = Some a"
    and "exec as st = Some st'"
    and "\<forall>mt c. Send mt c cid \<notin> set as \<and> Send_accept mt c cid \<notin> set as"
    and "Disconnect \<in> set as \<or> (\<exists>m. Inbound m \<in> set as \<and> correlation_id m = cid)"
  shows "future_result (heap st' a) \<noteq> None"
  using assms
proof (induction as arbitrary: st)
  case Nil
  then show ?case by simp
next
  case (Cons act as)
  from Cons.prems(3) obtain st1 where s: "step act st = Some st1"
    and e: "exec as st1 = Some st'"
    by (auto split: option.splits)
  from Cons.prems(1,2) have lt: "a < allocated st"
    by (force simp: registry_inv_def dest: map_of_SomeD)
  from step_results [OF s lt] lt have lt1: "a < allocated st1" by simp
  from Cons.prems(4) have ns: "\<forall>mt c. act \<noteq> Send mt c cid \<and> act \<noteq> Send_accept mt c cid"
    and ns': "\<forall>mt c. Send mt c cid \<notin> set as \<and> Send_accept mt c cid \<notin> set as"
    by auto
  have kept: ?case if "future_result (heap st1 a) \<noteq> None"
  proof -
    from that obtain v where "future_result (heap st1 a) = Some v" by auto
    from exec_results [OF e lt1 this] show ?thesis by simp
  qed
  show ?case
  proof (cases "act = Disconnect \<or> (\<exists>m. act = Inbound m \<and> correlation_id m = cid)")
    case True
    with step_registered [OF s Cons.prems(2) ns] kept show ?thesis by simp
  next
    case False
    with Cons.prems(5)
    have later: "Disconnect \<in> set as \<or> (\<exists>m. Inbound m \<in> set as \<and> correlation_id m = cid)"
      by auto
    from step_registered [OF s Cons.prems(2) ns]
    have "map_of (futures st1) cid = Some a \<or> future_result (heap st1 a) \<noteq> None" by simp
    then show ?thesis
    proof
      assume "map_of (futures st1) cid = Some a"
      from Cons.IH [OF registry_inv_step [OF Cons.prems(1) s] this e ns' later]
      show ?thesis .
    next
      assume "future_result (heap st1 a) \<noteq> None"
      then show ?thesis by (rule kept)
    qed
  qed
qed

text \<open>
  Once the thread has ended, nothing is resolved any more: no coroutine runs and the
  thread makes no pass.
\<close>

lemma shut_down_step:
  assumes "thread st = Shut_down" and "step act st = Some st1" and "x < allocated st"
  shows "thread st1 = Shut_down \<and> allocated st \<le> allocated st1 \<and>
         future_result (heap st1 x) = future_result (heap st x)"
proof -
  from assms(1,2) have t: "thread st1 = Shut_down"
    by (cases act)
      (auto simp: running_def caller_defs shutdown_defs Let_def split: if_splits)
  from assms(1,2) have n: "act \<noteq> Disconnect" "\<forall>m. act \<noteq> Inbound m"
    by (auto simp: running_def)
  from step_effect [OF assms(2)] n assms(3)
  have "future_result (heap st1 x) = future_result (heap st x)"
    by (elim disjE exE conjE) auto
  with t step_results [OF assms(2,3)] show ?thesis by simp
qed

lemma shut_down_exec:
  "thread st = Shut_down \<Longrightarrow> exec as st = Some st' \<Longrightarrow> x < allocated st \<Longrightarrow>
     thread st' = Shut_down \<and> future_result (heap st' x) = future_result (heap st x)"
proof (induction as arbitrary: st)
  case Nil
  then show ?case by simp
next
  case (Cons act as)
  from Cons.prems(2) obtain st1 where s: "step act st = Some st1"
    and e: "exec as st1 = Some st'"
    by (auto split: option.splits)
  from shut_down_step [OF Cons.prems(1) s Cons.prems(3)] Cons.prems(3)
  have "thread st1 = Shut_down" "x < allocated st1"
    "future_result (heap st1 x) = future_result (heap st x)" by auto
  with Cons.IH [OF _ e] show ?case by simp
qed

text \<open>
  Claim C1 says that the future of every request is resolved exactly once, never fewer
  times unless the process is killed. \<open>close()\<close> kills nothing: it asks for the shutdown
  callback, which stops the loop, closes the socket and destroys the context, after
  which the thread ends; the callback fails no future and leaves the readiness event
  set. Here \<open>close()\<close> is called on a connected client and the connection is lost, which
  cancels the tasks the callback waits for, so that the callback takes its turn on the
  loop of the next connection. A \<open>send\<close> accepted on that connection, while the client
  is ready and connected and its loops are running, has its future registered and
  pending when the callback has run; from then on no disconnect is handled, no message
  is received and the thread makes no pass, and whatever is done with the client, the
  future stays pending.
\<close>

theorem future_pending_after_shutdown:
  "(case exec [Run ''0123456789abcdef0123'', Close, Disconnect, Run ''fedcba9876543210fedc'']
          (Stream_init ''localhost:4004'') of
      None \<Rightarrow> False
    | Some st0 \<Rightarrow> is_ready st0 \<and> connected st0 \<and> loops_running st0) \<and>
   (case exec [Run ''0123456789abcdef0123'', Close, Disconnect, Run ''fedcba9876543210fedc'',
               Send 7 ''ping'' ''c1'', Done_callback]
          (Stream_init ''localhost:4004'') of
      None \<Rightarrow> False
    | Some st \<Rightarrow>
        thread st = Shut_down \<and> is_ready st \<and>
        map_of (futures st) ''c1'' = Some 0 \<and> future_result (heap st 0) = None \<and>
        step Disconnect st = None \<and>
        step (Inbound \<lparr>message_type = 8, correlation_id = ''c1'', content = ''pong''\<rparr>) st
          = None \<and>
        step (Run ''0f1e2d3c4b5a69788796'') st = None \<and>
        (\<forall>as st'. exec as st = Some st' \<longrightarrow> future_result (heap st' 0) = None))"
proof -
  have a: "case exec [Run ''0123456789abcdef0123'', Close, Disconnect,
                      Run ''fedcba9876543210fedc'']
          (Stream_init ''localhost:4004'') of
      None \<Rightarrow> False
    | Some st0 \<Rightarrow> is_ready st0 \<and> connected st0 \<and> loops_running st0"
    by (simp add: eval_defs connected_def loops_running_def)
  obtain st where e:
      "exec [Run ''0123456789abcdef0123'', Close, Disconnect, Run ''fedcba9876543210fedc'',
             Send 7 ''ping'' ''c1'', Done_callback]
         (Stream_init ''localhost:4004'') = Some st"
    and t: "thread st = Shut_down" and r: "is_ready st"
    and f: "map_of (futures st) ''c1'' = Some 0" and p: "future_result (heap st 0) = None"
    and al: "0 < allocated st"
    by (simp add: eval_defs)
  from t have n: "step Disconnect st = None"
    "step (Inbound \<lparr>message_type = 8, correlation_id = ''c1'', content = ''pong''\<rparr>) st = None"
    "step (Run ''0f1e2d3c4b5a69788796'') st = None"
    by (simp_all add: running_def)
  have "future_result (heap st' 0) = None" if "exec as st = Some st'" for as st'
    using shut_down_exec [OF t that al] p by simp
  with a t r f p n show ?thesis unfolding e
    by (simp del: exec.simps step.simps)
qed

text \<open>
  Claim C1, amended. In any state the client can reach, and over anything that happens
  from there: a future that has been resolved keeps the resolution it has, so no future
  is resolved twice; a pending future is resolved by nothing but the disconnect handler,
  when it is in the collection, and a received message whose correlation id it is
  registered under. A future registered under a correlation id is pending or failed; a
  disconnect leaves it failed; a message with that correlation id gives it the message
  as its result, if it is pending, and takes it out of the collection; and it has been
  resolved after any course of events in which a disconnect was handled or a message with
  that correlation id was received, provided \<open>send\<close> was not given the same id again.
\<close>

theorem future_resolution:
  assumes "reachable u st" and "a < allocated st" and "exec as st = Some st'"
  shows "(\<forall>v. future_result (heap st a) = Some v \<longrightarrow> future_result (heap st' a) = Some v) \<and>
         (\<forall>act st1. step act st = Some st1 \<and> future_result (heap st a) = None \<and>
              future_result (heap st1 a) \<noteq> None \<longrightarrow>
              (act = Disconnect \<and> a \<in> set (FutureCollection_future_values st)) \<or>
              (\<exists>m. act = Inbound m \<and> map_of (futures st) (correlation_id m) = Some a)) \<and>
         (\<forall>cid. map_of (futures st) cid = Some a \<longrightarrow>
            (future_result (heap st a) = None \<or>
             future_result (heap st a) = Some FutureError) \<and>
            (\<forall>st1. step Disconnect st = Some st1 \<longrightarrow>
               future_result (heap st1 a) = Some FutureError) \<and>
            (\<forall>m st1. correlation_id m = cid \<and> step (Inbound m) st = Some st1 \<longrightarrow>
               future_result (heap st1 a) =
                 (case future_result (heap st a) of
                    None \<Rightarrow> Some (FutureResult (message_type m) (content m))
                  | Some v \<Rightarrow> Some v) \<and>
               map_of (futures st1) cid = None) \<and>
            ((\<forall>mt c. Send mt c cid \<notin> set as \<and> Send_accept mt c cid \<notin> set as) \<and>
             (Disconnect \<in> set as \<or> (\<exists>m. Inbound m \<in> set as \<and> correlation_id m = cid)) \<longrightarrow>
             future_result (heap st' a) \<noteq> None))"
proof -
  have reg: "registry_inv st" using reachable_registry_inv [OF assms(1)] .
  have kept: "\<forall>v. future_result (heap st a) = Some v \<longrightarrow> future_result (heap st' a) = Some v"
    using exec_results [OF assms(3,2)] by blast
  have only: "\<forall>act st1. step act st = Some st1 \<and> future_result (heap st a) = None \<and>
              future_result (heap st1 a) \<noteq> None \<longrightarrow>
              (act = Disconnect \<and> a \<in> set (FutureCollection_future_values st)) \<or>
              (\<exists>m. act = Inbound m \<and> map_of (futures st) (correlation_id m) = Some a)"
    using step_resolves [OF _ assms(2)] by blast
  have registered:
    "(future_result (heap st a) = None \<or> future_result (heap st a) = Some FutureError) \<and>
     (\<forall>st1. step Disconnect st = Some st1 \<longrightarrow>
        future_result (heap st1 a) = Some FutureError) \<and>
     (\<forall>m st1. correlation_id m = cid \<and> step (Inbound m) st = Some st1 \<longrightarrow>
        future_result (heap st1 a) =
          (case future_result (heap st a) of
             None \<Rightarrow> Some (FutureResult (message_type m) (content m))
           | Some v \<Rightarrow> Some v) \<and>
        map_of (futures st1) cid = None) \<and>
     ((\<forall>mt c. Send mt c cid \<notin> set as \<and> Send_accept mt c cid \<notin> set as) \<and>
      (Disconnect \<in> set as \<or> (\<exists>m. Inbound m \<in> set as \<and> correlation_id m = cid)) \<longrightarrow>
      future_result (heap st' a) \<noteq> None)"
    if m: "map_of (futures st) cid = Some a" for cid
  proof -
    from m have i: "a \<in> set (FutureCollection_future_values st)"
      by (force simp: FutureCollection_future_values_def dest: map_of_SomeD)
    with reg have pe:
      "future_result (heap st a) = None \<or> future_result (heap st a) = Some FutureError"
      by (auto simp: registry_inv_def FutureCollection_future_values_def)
    have d: "\<forall>st1. step Disconnect st = Some st1 \<longrightarrow>
        future_result (heap st1 a) = Some FutureError"
    proof (intro allI impI)
      fix st1 assume "step Disconnect st = Some st1"
      from disconnect_result [OF this, of a] i pe
      show "future_result (heap st1 a) = Some FutureError" by auto
    qed
    have r: "\<forall>m st1. correlation_id m = cid \<and> step (Inbound m) st = Some st1 \<longrightarrow>
        future_result (heap st1 a) =
          (case future_result (heap st a) of
             None \<Rightarrow> Some (FutureResult (message_type m) (content m))
           | Some v \<Rightarrow> Some v) \<and>
        map_of (futures st1) cid = None"
    proof (intro allI impI)
      fix m' st1 assume h: "correlation_id m' = cid \<and> step (Inbound m') st = Some st1"
      then have s: "step (Inbound m') st = Some st1" and c: "correlation_id m' = cid"
        by simp_all
      from m c have "map_of (futures st) (correlation_id m') = Some a" by simp
      from inbound_registered [OF s this] c
      show "future_result (heap st1 a) =
          (case future_result (heap st a) of
             None \<Rightarrow> Some (FutureResult (message_type m') (content m'))
           | Some v \<Rightarrow> Some v) \<and>
        map_of (futures st1) cid = None"
        by (simp add: AList.delete_conv)
    qed
    have l: "(\<forall>mt c. Send mt c cid \<notin> set as \<and> Send_accept mt c cid \<notin> set as) \<and>
      (Disconnect \<in> set as \<or> (\<exists>m. Inbound m \<in> set as \<and> correlation_id m = cid)) \<longrightarrow>
      future_result (heap st' a) \<noteq> None"
      using exec_resolves [OF reg m assms(3)] by blast
    show ?thesis by (rule conjI [OF pe conjI [OF d conjI [OF r l]]])
  qed
  then have registered':
    "\<forall>cid. map_of (futures st) cid = Some a \<longrightarrow>
       (future_result (heap st a) = None \<or> future_result (heap st a) = Some FutureError) \<and>
       (\<forall>st1. step Disconnect st = Some st1 \<longrightarrow>
          future_result (heap st1 a) = Some FutureError) \<and>
       (\<forall>m st1. correlation_id m = cid \<and> step (Inbound m) st = Some st1 \<longrightarrow>
          future_result (heap st1 a) =
            (case future_result (heap st a) of
               None \<Rightarrow> Some (FutureResult (message_type m) (content m))
             | Some v \<Rightarrow> Some v) \<and>
          map_of (futures st1) cid = None) \<and>
       ((\<forall>mt c. Send mt c cid \<notin> set as \<and> Send_accept mt c cid \<notin> set as) \<and>
        (Disconnect \<in> set as \<or> (\<exists>m. Inbound m \<in> set as \<and> correlation_id m = cid)) \<longrightarrow>
        future_result (heap st' a) \<noteq> None)"
    by (intro allI impI)
  show ?thesis by (rule conjI [OF kept conjI [OF only registered']])
qed

lemma exec_append:
  "exec (as @ bs) st = (case exec as st of None \<Rightarrow> None | Some st' \<Rightarrow> exec bs st')"
  by (induction as arbitrary: st) (auto split: option.splits)

lemma exec_split:
  "exec (as @ bs) st = Some st2 \<Longrightarrow> exec as st = Some st1 \<Longrightarrow> exec bs st1 = Some st2"
  by (simp add: exec_append)

lemma exec_single: "exec [a] st = step a st"
  by (simp split: option.splits)

text \<open>
  The theorem for the future of one request on a connected client: the response
  resolves it, and the result is kept when the connection is lost afterwards and the
  response comes a second time; a disconnect before the response fails it.
\<close>

theorem future_resolution_witness:
  "case exec [Run ''0123456789abcdef0123'', Send 7 ''ping'' ''c1'']
         (Stream_init ''localhost:4004'') of
     None \<Rightarrow> False
   | Some st \<Rightarrow>
       map_of (futures st) ''c1'' = Some 0 \<and> future_result (heap st 0) = None \<and>
       (case step (Inbound \<lparr>message_type = 8, correlation_id = ''c1'', content = ''pong''\<rparr>) st of
          None \<Rightarrow> False
        | Some st1 \<Rightarrow>
            future_result (heap st1 0) = Some (FutureResult 8 ''pong'') \<and>
            map_of (futures st1) ''c1'' = None \<and>
            (case exec [Disconnect, Run ''fedcba9876543210fedc'',
                        Inbound \<lparr>message_type = 8, correlation_id = ''c1'',
                                 content = ''pong''\<rparr>] st1 of
               None \<Rightarrow> False
             | Some st2 \<Rightarrow> future_result (heap st2 0) = Some (FutureResult 8 ''pong''))) \<and>
       (case step Disconnect st of
          None \<Rightarrow> False
        | Some st1 \<Rightarrow> future_result (heap st1 0) = Some FutureError) \<and>
       (case exec [Put \<lparr>message_type = 7, correlation_id = ''c1'', content = ''ping''\<rparr>,
                   Outbound, Disconnect, Run ''fedcba9876543210fedc''] st of
          None \<Rightarrow> False
        | Some st3 \<Rightarrow> future_result (heap st3 0) \<noteq> None)"
proof -
  let ?i = "Stream_init ''localhost:4004''"
  let ?m = "\<lparr>message_type = 8, correlation_id = ''c1'', content = ''pong''\<rparr>"
  let ?as = "[Run ''0123456789abcdef0123'', Send 7 ''ping'' ''c1'']"
  let ?bs = "[Disconnect, Run ''fedcba9876543210fedc'', Inbound ?m]"
  let ?cs = "[Put \<lparr>message_type = 7, correlation_id = ''c1'', content = ''ping''\<rparr>,
              Outbound, Disconnect, Run ''fedcba9876543210fedc'']"
  obtain st where e: "exec ?as ?i = Some st"
    and f: "map_of (futures st) ''c1'' = Some 0" and p: "future_result (heap st 0) = None"
    and al: "0 < allocated st"
    by (simp add: eval_defs)
  obtain st1 where e1: "exec (?as @ [Inbound ?m]) ?i = Some st1"
    by (simp add: eval_defs)
  obtain st2 where e2: "exec ((?as @ [Inbound ?m]) @ ?bs) ?i = Some st2"
    by (simp add: eval_defs)
  obtain sd where ed: "exec (?as @ [Disconnect]) ?i = Some sd"
    by (simp add: eval_defs)
  obtain st3 where e3: "exec (?as @ ?cs) ?i = Some st3"
    by (simp add: eval_defs)
  have i: "step (Inbound ?m) st = Some st1"
    using exec_split [OF e1 e] by (simp only: exec_single)
  have b: "exec ?bs st1 = Some st2"
    using exec_split [OF e2 e1] .
  have d: "step Disconnect st = Some sd"
    using exec_split [OF ed e] by (simp only: exec_single)
  have c: "exec ?cs st = Some st3"
    using exec_split [OF e3 e] .
  have re: "reachable ''localhost:4004'' st"
    using exec_reachable [OF reachable.init e] .
  have re1: "reachable ''localhost:4004'' st1"
    using exec_reachable [OF reachable.init e1] .
  from step_results [OF i al] al have al1: "0 < allocated st1" by simp
  note T = future_resolution [OF re al c]
  note R = mp [OF spec [where x = "''c1''", OF conjunct2 [OF conjunct2 [OF T]]] f]
  have cm: "correlation_id ?m = ''c1''" by simp
  note Rd = mp [OF spec [where x = sd, OF conjunct1 [OF conjunct2 [OF R]]] d]
  note Rr = mp [OF spec [where x = st1, OF spec [where x = "?m",
                  OF conjunct1 [OF conjunct2 [OF conjunct2 [OF R]]]]] conjI [OF cm i]]
  note Rl = conjunct2 [OF conjunct2 [OF conjunct2 [OF R]]]
  from Rr p have k1: "future_result (heap st1 0) = Some (FutureResult 8 ''pong'')"
    and k2: "map_of (futures st1) ''c1'' = None"
    by simp_all
  from Rl have k3: "future_result (heap st3 0) \<noteq> None" by simp
  note T1 = future_resolution [OF re1 al1 b]
  note k4 = mp [OF spec [where x = "FutureResult 8 ''pong''", OF conjunct1 [OF T1]] k1]
  from k1 k2 k3 k4 Rd show ?thesis unfolding e using f p i b d c
    by (simp del: exec.simps step.simps)
qed

end
